theory Spec2Isabelle
  imports Complex_Main "HOL-Library.Word"
begin

section \<open>The icon generator \<^verbatim>\<open>doc/generate_icons.py\<close>\<close>

text \<open>
  The script has one function of interest, \<^verbatim>\<open>create_icon_with_padding\<close>, which opens a
  picture, resizes it to an inner square, optionally multiplies its alpha channel with a
  rounded-rectangle mask, pastes it onto a transparent canvas and saves the canvas as PNG.
  Its arithmetic is Python arithmetic: integers are unbounded, \<^verbatim>\<open>/\<close> is true division
  in IEEE binary64, \<^verbatim>\<open>int()\<close> truncates towards zero and \<^verbatim>\<open>//\<close> is floor division.
  The picture operations are calls into the imaging library (Pillow); what the script
  fixes about them (sizes, offsets, which operation feeds which) is modelled here, and
  what only the library fixes (the resampled colours, the rasterised outline) is a
  parameter. Memory is not a resource of the model: a picture of any size can be
  made, and the properties below are stated for sides below \<open>2 ^ 31\<close>, which the
  library's machine integers can hold.
\<close>

subsection \<open>Exceptions\<close>

datatype error = IOError | ValueError | OverflowError

definition and_then :: "error + 'a \<Rightarrow> ('a \<Rightarrow> error + 'b) \<Rightarrow> error + 'b" where
  "and_then m f = (case m of Inl e \<Rightarrow> Inl e | Inr v \<Rightarrow> f v)"

subsection \<open>Python numbers\<close>

text \<open>
  A number passed for \<^verbatim>\<open>padding_percent\<close> or \<^verbatim>\<open>corner_radius_percent\<close> is a Python
  \<^verbatim>\<open>int\<close> or a finite \<^verbatim>\<open>float\<close>. A finite float is the real number it denotes (the
  sign of a zero plays no part in the script; infinities and NaN are not arguments of
  the model).
\<close>

datatype pynum = PyInt int | PyFloat real

fun num_val :: "pynum \<Rightarrow> real" where
  "num_val (PyInt i) = of_int i"
| "num_val (PyFloat f) = f"

subsection \<open>IEEE binary64 rounding\<close>

text \<open>
  \<open>expo r\<close> is the binary exponent of a positive real: \<open>2 powi expo r \<le> r < 2 powi (expo r + 1)\<close>.
\<close>

function expo :: "real \<Rightarrow> int" where
  "expo r = (if r \<le> 0 then 0
             else if 2 \<le> r then expo (r / 2) + 1
             else if r < 1 then expo (r * 2) - 1
             else 0)"
  by pat_completeness auto
termination
proof (relation "measure (\<lambda>r. if 1 \<le> r then nat \<lfloor>r\<rfloor> else nat \<lceil>1 / r\<rceil>)")
  show "wf (measure (\<lambda>r::real. if 1 \<le> r then nat \<lfloor>r\<rfloor> else nat \<lceil>1 / r\<rceil>))"
    by simp
next
  fix r :: real
  assume a: "\<not> r \<le> 0" "2 \<le> r"
  have "\<lfloor>r / 2\<rfloor> < \<lfloor>r\<rfloor>" using a by linarith
  moreover have "0 < \<lfloor>r\<rfloor>" using a by linarith
  ultimately show "(r / 2, r) \<in> measure (\<lambda>r. if 1 \<le> r then nat \<lfloor>r\<rfloor> else nat \<lceil>1 / r\<rceil>)"
    using a by auto
next
  fix r :: real
  assume a: "\<not> r \<le> 0" "\<not> 2 \<le> r" "r < 1"
  have r: "0 < r" using a by simp
  have inv: "1 < 1 / r" using a r by (simp add: field_simps)
  show "(r * 2, r) \<in> measure (\<lambda>r. if 1 \<le> r then nat \<lfloor>r\<rfloor> else nat \<lceil>1 / r\<rceil>)"
  proof (cases "1 \<le> r * 2")
    case True
    have "\<lfloor>r * 2\<rfloor> = 1" using True a by linarith
    moreover have "2 \<le> \<lceil>1 / r\<rceil>" using inv by linarith
    ultimately show ?thesis using True a by auto
  next
    case False
    have "2 < 1 / r" using False r by (simp add: field_simps)
    moreover have "1 / (r * 2) = (1 / r) / 2" by simp
    ultimately have "\<lceil>1 / (r * 2)\<rceil> < \<lceil>1 / r\<rceil>" by linarith
    moreover have "0 < \<lceil>1 / r\<rceil>" using inv by linarith
    ultimately show ?thesis using False a by auto
  qed
qed

declare expo.simps [simp del]

text \<open>Rounding a real to the nearest integer, a tie going to the even neighbour.\<close>

definition rhe :: "real \<Rightarrow> int" where
  "rhe t = (let f = \<lfloor>t\<rfloor>; d = t - of_int f
            in if d < 1 / 2 then f
               else if 1 / 2 < d then f + 1
               else if even f then f else f + 1)"

text \<open>
  The exponent of the unit in the last place: a binary64 significand has 53 bits, and
  below \<open>2 powi (- 1022)\<close> the spacing stays at \<open>2 powi (- 1074)\<close> (subnormal numbers).
\<close>

definition ulp_exp :: "real \<Rightarrow> int" where
  "ulp_exp r = max (expo \<bar>r\<bar> - 52) (- 1074)"

definition rnd :: "real \<Rightarrow> real" where
  "rnd r = of_int (rhe (r / 2 powi ulp_exp r)) * 2 powi ulp_exp r"

text \<open>
  A correctly rounded operation. A result that rounds to \<open>2 ^ 1024\<close> or beyond has no
  finite binary64 value. In the script every float expression is the argument of
  \<^verbatim>\<open>int()\<close> in the same statement, which raises \<^verbatim>\<open>OverflowError\<close> on an infinity, as
  the conversion of a too large \<^verbatim>\<open>int\<close> to \<^verbatim>\<open>float\<close> and the true division of too
  large integers do at once; so the overflow is that exception here.
\<close>

definition fl :: "real \<Rightarrow> error + real" where
  "fl r = (let v = rnd r in if 2 ^ 1024 \<le> \<bar>v\<bar> then Inl OverflowError else Inr v)"

text \<open>\<^verbatim>\<open>x / 100\<close>: true division, correctly rounded for an \<^verbatim>\<open>int\<close> as for a \<^verbatim>\<open>float\<close>.\<close>

definition div100 :: "pynum \<Rightarrow> error + real" where
  "div100 x = fl (num_val x / 100)"

text \<open>\<^verbatim>\<open>n * x\<close> for an \<^verbatim>\<open>int\<close> \<open>n\<close>: exact on integers, else \<open>n\<close> is converted to float first.\<close>

fun int_times :: "int \<Rightarrow> pynum \<Rightarrow> error + pynum" where
  "int_times n (PyInt c) = Inr (PyInt (n * c))"
| "int_times n (PyFloat f) =
     and_then (fl (of_int n)) (\<lambda>fn. and_then (fl (fn * f)) (\<lambda>v. Inr (PyFloat v)))"

text \<open>\<^verbatim>\<open>int(z)\<close> on a finite float: truncation towards zero.\<close>

definition py_int :: "real \<Rightarrow> int" where
  "py_int z = (if 0 \<le> z then \<lfloor>z\<rfloor> else \<lceil>z\<rceil>)"

subsection \<open>The sizes the script computes\<close>

text \<open>\<^verbatim>\<open>inner_size = int(size * (1 - padding_percent / 100))\<close>\<close>

definition inner_size_of :: "int \<Rightarrow> pynum \<Rightarrow> error + int" where
  "inner_size_of tsize padding_percent =
     and_then (div100 padding_percent) (\<lambda>x.
     and_then (fl (1 - x)) (\<lambda>y.
     and_then (fl (of_int tsize)) (\<lambda>fs.
     and_then (fl (fs * y)) (\<lambda>z.
     Inr (py_int z)))))"

text \<open>
  \<^verbatim>\<open>radius = int(inner_size * corner_radius_percent / 100)\<close> followed by
  \<^verbatim>\<open>radius = max(1, radius)\<close>
\<close>

definition corner_radius_of :: "int \<Rightarrow> pynum \<Rightarrow> error + int" where
  "corner_radius_of inner_size corner_radius_percent =
     and_then (int_times inner_size corner_radius_percent) (\<lambda>t.
     and_then (div100 t) (\<lambda>q.
     Inr (max 1 (py_int q))))"

text \<open>\<^verbatim>\<open>pos = (size - inner_size) // 2\<close>\<close>

definition paste_pos :: "int \<Rightarrow> int \<Rightarrow> int" where
  "paste_pos tsize inner_size = (tsize - inner_size) div 2"

subsection \<open>Pictures\<close>

text \<open>
  A picture has a mode, a size and a pixel for every position; the pixels that count are
  those with \<open>0 \<le> x < width\<close> and \<open>0 \<le> y < height\<close>. A band is an unsigned byte. An
  image of mode \<^verbatim>\<open>"L"\<close> has bytes for pixels, an image of mode \<^verbatim>\<open>"RGBA"\<close> has four bands.
\<close>

type_synonym u8 = "8 word"

record pixel =
  red :: u8
  green :: u8
  blue :: u8
  alpha :: u8

datatype mode = L | RGB | RGBA

record 'p image =
  mode :: mode
  width :: int
  height :: int
  px :: "int \<Rightarrow> int \<Rightarrow> 'p"

text \<open>
  What the script leaves to the imaging library: the colours that Lanczos resampling
  gives (\<open>lanczos lib im w h x y\<close> is the pixel at \<open>(x, y)\<close> of \<open>im\<close> resampled to
  \<open>w \<times> h\<close>), and the pixels that the drawing of a filled rounded rectangle covers
  (\<open>rounded_rectangle_fill lib x0 y0 x1 y1 radius x y\<close>).
\<close>

record imaging =
  lanczos :: "pixel image \<Rightarrow> int \<Rightarrow> int \<Rightarrow> int \<Rightarrow> int \<Rightarrow> pixel"
  rounded_rectangle_fill :: "int \<Rightarrow> int \<Rightarrow> int \<Rightarrow> int \<Rightarrow> int \<Rightarrow> int \<Rightarrow> int \<Rightarrow> bool"

definition transparent :: pixel where
  "transparent = \<lparr>red = 0, green = 0, blue = 0, alpha = 0\<rparr>"

text \<open>\<^verbatim>\<open>Image.new(mode, (w, h), colour)\<close>: a negative side is a \<^verbatim>\<open>ValueError\<close>.\<close>

definition image_new :: "mode \<Rightarrow> int \<Rightarrow> int \<Rightarrow> 'p \<Rightarrow> error + 'p image" where
  "image_new m w h c =
     (if w < 0 \<or> h < 0 then Inl ValueError
      else Inr \<lparr>mode = m, width = w, height = h, px = (\<lambda>x y. c)\<rparr>)"

text \<open>
  \<^verbatim>\<open>im.resize((w, h), Image.Resampling.LANCZOS)\<close>: a request for the size the image
  already has returns a copy; otherwise a side below 1 is a \<^verbatim>\<open>ValueError\<close>
  (``height and width must be > 0''), and the pixels are those of the resampling.
  The pictures that are resized here come from a file and have at least one pixel.
\<close>

definition resize :: "imaging \<Rightarrow> pixel image \<Rightarrow> int \<Rightarrow> int \<Rightarrow> error + pixel image" where
  "resize lib im w h =
     (if width im = w \<and> height im = h then Inr im
      else if w < 1 \<or> h < 1 then Inl ValueError
      else Inr (im\<lparr>width := w, height := h, px := lanczos lib im w h\<rparr>))"

text \<open>
  \<^verbatim>\<open>ImageDraw.Draw(im).rounded_rectangle([(x0, y0), (x1, y1)], radius=radius, fill=fill)\<close>:
  the covered pixels of the image take the fill value; a box with \<open>x1 < x0\<close> or
  \<open>y1 < y0\<close> is a \<^verbatim>\<open>ValueError\<close>.
\<close>

definition rounded_rectangle ::
  "imaging \<Rightarrow> u8 image \<Rightarrow> int \<times> int \<Rightarrow> int \<times> int \<Rightarrow> int \<Rightarrow> u8 \<Rightarrow> error + u8 image" where
  "rounded_rectangle lib im a b radius fill =
     (case (a, b) of ((x0, y0), (x1, y1)) \<Rightarrow>
        if x1 < x0 \<or> y1 < y0 then Inl ValueError
        else Inr (im\<lparr>px := (\<lambda>x y.
               if 0 \<le> x \<and> x < width im \<and> 0 \<le> y \<and> y < height im
                  \<and> rounded_rectangle_fill lib x0 y0 x1 y1 radius x y
               then fill else px im x y)\<rparr>))"

text \<open>\<^verbatim>\<open>im.getchannel("A")\<close>\<close>

definition getchannel_A :: "pixel image \<Rightarrow> u8 image" where
  "getchannel_A im =
     \<lparr>mode = L, width = width im, height = height im, px = (\<lambda>x y. alpha (px im x y))\<rparr>"

text \<open>
  \<^verbatim>\<open>ImageChops.multiply(a, b)\<close>: per pixel \<open>a * b / 255\<close> in C integer arithmetic,
  clipped to a byte, over the common part of the two images.
\<close>

definition mul8 :: "u8 \<Rightarrow> u8 \<Rightarrow> u8" where
  "mul8 a b = word_of_nat (min 255 (unat a * unat b div 255))"

definition chop_multiply :: "u8 image \<Rightarrow> u8 image \<Rightarrow> u8 image" where
  "chop_multiply a b =
     \<lparr>mode = mode a, width = min (width a) (width b), height = min (height a) (height b),
      px = (\<lambda>x y. mul8 (px a x y) (px b x y))\<rparr>"

text \<open>
  \<^verbatim>\<open>im.putalpha(band)\<close> on an RGBA image: the band replaces the alpha channel; a band
  of another mode or size is a \<^verbatim>\<open>ValueError\<close>.
\<close>

definition putalpha :: "pixel image \<Rightarrow> u8 image \<Rightarrow> error + pixel image" where
  "putalpha im band =
     (if mode band \<noteq> L \<or> width band \<noteq> width im \<or> height band \<noteq> height im
      then Inl ValueError
      else Inr (im\<lparr>px := (\<lambda>x y. (px im x y)\<lparr>alpha := px band x y\<rparr>)\<rparr>))"

text \<open>
  \<^verbatim>\<open>dst.paste(im, (dx, dy), mask)\<close> with an RGBA mask: inside the pasted box, clipped to
  \<open>dst\<close>, every band of \<open>dst\<close> (the alpha band too) becomes the blend of its old value
  and the band of \<open>im\<close>, weighted by the alpha of the mask; the library's blend is
  \<open>(in1 * (255 - mask) + in2 * mask) / 255\<close> rounded to nearest, computed with shifts.
\<close>

definition div255 :: "nat \<Rightarrow> nat" where
  "div255 a = (let t = a + 128 in (t div 256 + t) div 256)"

definition blend8 :: "u8 \<Rightarrow> u8 \<Rightarrow> u8 \<Rightarrow> u8" where
  "blend8 msk in1 in2 =
     word_of_nat (div255 (unat in1 * (255 - unat msk) + unat in2 * unat msk))"

definition blend_pixel :: "u8 \<Rightarrow> pixel \<Rightarrow> pixel \<Rightarrow> pixel" where
  "blend_pixel msk p1 p2 =
     \<lparr>red = blend8 msk (red p1) (red p2), green = blend8 msk (green p1) (green p2),
      blue = blend8 msk (blue p1) (blue p2), alpha = blend8 msk (alpha p1) (alpha p2)\<rparr>"

definition paste ::
  "pixel image \<Rightarrow> pixel image \<Rightarrow> int \<times> int \<Rightarrow> pixel image \<Rightarrow> error + pixel image" where
  "paste dst im pos msk =
     (case pos of (dx, dy) \<Rightarrow>
        if width msk \<noteq> width im \<or> height msk \<noteq> height im then Inl ValueError
        else Inr (dst\<lparr>px := (\<lambda>x y.
               if dx \<le> x \<and> x < dx + width im \<and> dy \<le> y \<and> y < dy + height im
                  \<and> 0 \<le> x \<and> x < width dst \<and> 0 \<le> y \<and> y < height dst
               then blend_pixel (alpha (px msk (x - dx) (y - dy))) (px dst x y)
                      (px im (x - dx) (y - dy))
               else px dst x y)\<rparr>))"

subsection \<open>Files and the console\<close>

text \<open>
  A readable picture file is the picture it decodes to, in the four bands that
  \<^verbatim>\<open>.convert("RGBA")\<close> gives it; a path that is absent cannot be opened. Saving fails on
  a path that cannot be written. Both failures are \<^verbatim>\<open>OSError\<close>s.
\<close>

record world =
  files :: "string \<Rightarrow> pixel image option"
  unwritable :: "string set"
  stdout :: "string list"

definition image_open :: "world \<Rightarrow> string \<Rightarrow> error + pixel image" where
  "image_open w path = (case files w path of None \<Rightarrow> Inl IOError | Some im \<Rightarrow> Inr im)"

definition convert_RGBA :: "pixel image \<Rightarrow> pixel image" where
  "convert_RGBA im = im\<lparr>mode := RGBA\<rparr>"

definition image_save :: "world \<Rightarrow> pixel image \<Rightarrow> string \<Rightarrow> error + world" where
  "image_save w im path =
     (if path \<in> unwritable w then Inl IOError
      else Inr (w\<lparr>files := (files w)(path \<mapsto> im)\<rparr>))"

definition py_print :: "world \<Rightarrow> string \<Rightarrow> world" where
  "py_print w line = w\<lparr>stdout := stdout w @ [line]\<rparr>"

text \<open>The decimal text of an integer, as an f-string formats it.\<close>

function digits :: "nat \<Rightarrow> string" where
  "digits n = (if n < 10 then [char_of (48 + n)]
               else digits (n div 10) @ [char_of (48 + n mod 10)])"
  by pat_completeness auto
termination
  by (relation "measure id") auto

declare digits.simps [simp del]

definition py_str :: "int \<Rightarrow> string" where
  "py_str i = (if i < 0 then CHR ''-'' # digits (nat (- i)) else digits (nat i))"

subsection \<open>The function \<^verbatim>\<open>create_icon_with_padding\<close>\<close>

text \<open>
  Lines 23 to 30: the mask is a black \<^verbatim>\<open>"L"\<close> image of the inner size with a white
  rounded rectangle over the whole of it, multiplied into the alpha channel.
\<close>

definition round_corners :: "imaging \<Rightarrow> pixel image \<Rightarrow> int \<Rightarrow> int \<Rightarrow> error + pixel image" where
  "round_corners lib img_resized inner_size radius =
     and_then (image_new L inner_size inner_size 0) (\<lambda>mask0.
     and_then (rounded_rectangle lib mask0 (0, 0) (inner_size - 1, inner_size - 1) radius 255)
       (\<lambda>msk.
     putalpha img_resized (chop_multiply (getchannel_A img_resized) msk)))"

text \<open>Lines 20 to 30: \<^verbatim>\<open>if corner_radius_percent > 0:\<close>\<close>

definition apply_corners :: "imaging \<Rightarrow> pixel image \<Rightarrow> int \<Rightarrow> pynum \<Rightarrow> error + pixel image" where
  "apply_corners lib img_resized inner_size corner_radius_percent =
     (if 0 < num_val corner_radius_percent
      then and_then (corner_radius_of inner_size corner_radius_percent)
             (round_corners lib img_resized inner_size)
      else Inr img_resized)"

text \<open>Lines 33 to 39: the transparent canvas and the paste of the image with itself as mask.\<close>

definition compose :: "int \<Rightarrow> int \<Rightarrow> pixel image \<Rightarrow> error + pixel image" where
  "compose tsize inner_size img_resized =
     and_then (image_new RGBA tsize tsize transparent) (\<lambda>new_img.
     paste new_img img_resized (paste_pos tsize inner_size, paste_pos tsize inner_size)
       img_resized)"

text \<open>Lines 14 to 39: from the opened picture to the picture that is saved.\<close>

definition render_icon :: "imaging \<Rightarrow> pixel image \<Rightarrow> int \<Rightarrow> pynum \<Rightarrow> pynum \<Rightarrow> error + pixel image" where
  "render_icon lib img tsize padding_percent corner_radius_percent =
     and_then (inner_size_of tsize padding_percent) (\<lambda>inner_size.
     and_then (resize lib img inner_size inner_size) (\<lambda>img_resized.
     and_then (apply_corners lib img_resized inner_size corner_radius_percent) (\<lambda>img_rounded.
     compose tsize inner_size img_rounded)))"

definition created_message :: "string \<Rightarrow> int \<Rightarrow> string" where
  "created_message output_path tsize =
     ''Created: '' @ output_path @ '' ('' @ py_str tsize @ ''x'' @ py_str tsize @ '')''"

text \<open>
  The whole function. An exception leaves the function before anything is written, so
  a result \<open>Inl e\<close> stands for the exception with the world as it was; a result
  \<open>Inr w'\<close> is the world after the function has returned \<^verbatim>\<open>None\<close>.
\<close>

definition create_icon_with_padding ::
  "imaging \<Rightarrow> world \<Rightarrow> string \<Rightarrow> string \<Rightarrow> int \<Rightarrow> pynum \<Rightarrow> pynum \<Rightarrow> error + world" where
  "create_icon_with_padding lib w input_path output_path tsize padding_percent
     corner_radius_percent =
     and_then (image_open w input_path) (\<lambda>opened.
     and_then (render_icon lib (convert_RGBA opened) tsize padding_percent corner_radius_percent)
       (\<lambda>new_img.
     and_then (image_save w new_img output_path) (\<lambda>w'.
     Inr (py_print w' (created_message output_path tsize)))))"

text \<open>
  A stand-in for the library, to run the model on concrete pictures: nearest-neighbour
  sampling, and a rounded rectangle that covers the pixels of the box whose distance
  from the corner circles' centres is at most the radius. Only the evaluations at
  concrete inputs below use it.
\<close>

definition demo_fill :: "int \<Rightarrow> int \<Rightarrow> int \<Rightarrow> int \<Rightarrow> int \<Rightarrow> int \<Rightarrow> int \<Rightarrow> bool" where
  "demo_fill x0 y0 x1 y1 radius x y =
     (let rx = min radius ((x1 - x0) div 2); ry = min radius ((y1 - y0) div 2);
          dx = max 0 (max (x0 + rx - x) (x - (x1 - rx)));
          dy = max 0 (max (y0 + ry - y) (y - (y1 - ry)))
      in x0 \<le> x \<and> x \<le> x1 \<and> y0 \<le> y \<and> y \<le> y1
         \<and> dx * dx * (ry * ry) + dy * dy * (rx * rx) \<le> rx * rx * (ry * ry))"

definition demo_lib :: imaging where
  "demo_lib =
     \<lparr>lanczos = (\<lambda>im w h x y. px im (x * width im div w) (y * height im div h)),
      rounded_rectangle_fill = demo_fill\<rparr>"


text \<open>
  A small world for the evaluations: a picture of 3 by 3 pixels at the driver's input
  path, opaque at the middle of its top row, transparent at the middle of its bottom
  row and half-transparent elsewhere (at its four corners and its centre too); and a
  second world that has the same picture under another name among other things.
\<close>

definition sample_icon :: "pixel image" where
  "sample_icon =
     \<lparr>mode = RGBA, width = 3, height = 3,
      px = (\<lambda>x y. \<lparr>red = 200, green = 100, blue = 50,
                      alpha = (if x = 1 \<and> y = 0 then 255 else if x = 1 \<and> y = 2 then 0 else 128)\<rparr>)\<rparr>"

definition sample_world :: world where
  "sample_world =
     \<lparr>files = [''doc/icon.png'' \<mapsto> sample_icon], unwritable = {}, stdout = []\<rparr>"


section \<open>Properties of the arithmetic\<close>

subsection \<open>Rounding\<close>

lemma expo_bracket:
  "0 < r \<Longrightarrow> 2 powi expo r \<le> r \<and> r < 2 powi (expo r + 1)"
proof (induction r rule: expo.induct)
  case (1 r)
  show ?case
  proof (cases "2 \<le> r")
    case True
    have e: "expo r = expo (r / 2) + 1"
      using 1(3) True by (subst expo.simps) simp
    have ih: "2 powi expo (r / 2) \<le> r / 2 \<and> r / 2 < 2 powi (expo (r / 2) + 1)"
      using 1(1) 1(3) True by simp
    have p: "\<And>k::int. (2::real) powi (k + 1) = 2 powi k * 2"
      by (simp add: power_int_add)
    show ?thesis using ih unfolding e p by linarith
  next
    case False
    show ?thesis
    proof (cases "r < 1")
      case True
      have e: "expo r = expo (r * 2) - 1"
        using 1(3) False True by (subst expo.simps) simp
      have ih: "2 powi expo (r * 2) \<le> r * 2 \<and> r * 2 < 2 powi (expo (r * 2) + 1)"
        using 1(2) 1(3) False True by simp
      have p: "\<And>k::int. (2::real) powi (k + 1) = 2 powi k * 2"
        by (simp add: power_int_add)
      have q: "(2::real) powi (expo (r * 2) - 1 + 1) = 2 powi expo (r * 2)" by simp
      have q2: "(2::real) powi expo (r * 2) = 2 powi (expo (r * 2) - 1) * 2"
        using p [of "expo (r * 2) - 1"] by simp
      show ?thesis using ih unfolding e q using q2 p [of "expo (r * 2)"] by linarith
    next
      case b: False
      have e: "expo r = 0"
        using 1(3) False b by (subst expo.simps) simp
      show ?thesis using False b by (simp add: e)
    qed
  qed
qed

lemma expo_less: "0 < r \<Longrightarrow> r < 2 powi k \<Longrightarrow> expo r < k"
proof (rule ccontr)
  assume r: "0 < r" and lt: "r < 2 powi k" and n: "\<not> expo r < k"
  have "(2::real) powi k \<le> 2 powi expo r"
    using n by (intro power_int_increasing) auto
  then show False using expo_bracket [OF r] lt by linarith
qed

lemma rhe_error: "\<bar>of_int (rhe t) - t\<bar> \<le> 1 / 2"
  unfolding rhe_def Let_def by (auto; linarith)

lemma rhe_of_int: "rhe (of_int k) = k"
  unfolding rhe_def Let_def by simp

lemma rhe_le: "t \<le> of_int k \<Longrightarrow> rhe t \<le> k"
proof -
  assume a: "t \<le> of_int k"
  have f: "\<lfloor>t\<rfloor> \<le> k" using a by (simp add: floor_le_iff) 
  show ?thesis
  proof (cases "\<lfloor>t\<rfloor> = k")
    case True
    then have "t - of_int \<lfloor>t\<rfloor> \<le> 0" using a by simp
    then show ?thesis unfolding rhe_def Let_def using True by auto
  next
    case False
    then have "\<lfloor>t\<rfloor> + 1 \<le> k" using f by simp
    then show ?thesis unfolding rhe_def Let_def by auto
  qed
qed

lemma rhe_ge: "of_int k \<le> t \<Longrightarrow> k \<le> rhe t"
proof -
  assume a: "of_int k \<le> t"
  have f: "k \<le> \<lfloor>t\<rfloor>" using a by (simp add: le_floor_iff)
  then show ?thesis unfolding rhe_def Let_def by auto
qed

lemma rnd_zero: "rnd 0 = 0"
  by (simp add: rnd_def rhe_def)

lemma expo_zero: "expo 0 = 0"
  by (subst expo.simps) simp

lemma rnd_error: "\<bar>rnd r - r\<bar> \<le> 2 powi ulp_exp r / 2"
proof -
  define s :: real where "s = 2 powi ulp_exp r"
  have s: "0 < s" by (simp add: s_def)
  have "\<bar>of_int (rhe (r / s)) - r / s\<bar> \<le> 1 / 2" by (rule rhe_error)
  then have "\<bar>of_int (rhe (r / s)) - r / s\<bar> * s \<le> 1 / 2 * s"
    using s by (intro mult_right_mono) auto
  moreover have "\<bar>of_int (rhe (r / s)) - r / s\<bar> * s = \<bar>(of_int (rhe (r / s)) - r / s) * s\<bar>"
    using s by (simp add: abs_mult)
  moreover have "(of_int (rhe (r / s)) - r / s) * s = of_int (rhe (r / s)) * s - r"
    using s by (simp add: left_diff_distrib)
  ultimately show ?thesis unfolding rnd_def s_def by simp
qed

text \<open>Integers are grid points wherever the unit in the last place is at most one.\<close>

lemma int_on_grid:
  assumes "e \<le> 0"
  shows "of_int k / (2::real) powi e = of_int (k * 2 ^ nat (- e))"
proof -
  have "(2::real) powi e = 1 / 2 ^ nat (- e)"
    using assms by (simp add: power_int_def inverse_eq_divide power_one_over)
  then show ?thesis by simp
qed

lemma rnd_le_int:
  assumes e: "ulp_exp r \<le> 0" and le: "r \<le> of_int k"
  shows "rnd r \<le> of_int k"
proof -
  define s :: real where "s = 2 powi ulp_exp r"
  have s: "0 < s" by (simp add: s_def)
  define K where "K = k * 2 ^ nat (- ulp_exp r)"
  have K: "of_int k / s = of_int K" unfolding s_def K_def by (rule int_on_grid [OF e])
  have "r / s \<le> of_int k / s" using le s by (simp add: divide_right_mono)
  then have "rhe (r / s) \<le> K" unfolding K by (rule rhe_le)
  then have "(of_int (rhe (r / s)) :: real) \<le> of_int K" by simp
  then have "of_int (rhe (r / s)) * s \<le> of_int K * s"
    using s by (intro mult_right_mono) auto
  moreover have "of_int K * s = of_int k" using K s by (simp add: field_simps)
  ultimately show ?thesis unfolding rnd_def s_def by simp
qed

lemma rnd_ge_int:
  assumes e: "ulp_exp r \<le> 0" and le: "of_int k \<le> r"
  shows "of_int k \<le> rnd r"
proof -
  define s :: real where "s = 2 powi ulp_exp r"
  have s: "0 < s" by (simp add: s_def)
  define K where "K = k * 2 ^ nat (- ulp_exp r)"
  have K: "of_int k / s = of_int K" unfolding s_def K_def by (rule int_on_grid [OF e])
  have "of_int k / s \<le> r / s" using le s by (simp add: divide_right_mono)
  then have "K \<le> rhe (r / s)" unfolding K by (rule rhe_ge)
  then have "(of_int K :: real) \<le> of_int (rhe (r / s))" by simp
  then have "of_int K * s \<le> of_int (rhe (r / s)) * s"
    using s by (intro mult_right_mono) auto
  moreover have "of_int K * s = of_int k" using K s by (simp add: field_simps)
  ultimately show ?thesis unfolding rnd_def s_def by simp
qed

lemma ulp_exp_le:
  assumes "r \<noteq> 0" and "\<bar>r\<bar> < 2 powi k" and "- 1021 \<le> k"
  shows "ulp_exp r \<le> k - 53"
proof -
  have "expo \<bar>r\<bar> < k" using assms by (intro expo_less) auto
  then show ?thesis using assms(3) unfolding ulp_exp_def by simp
qed

lemma ulp_exp_nonpos: "\<bar>r\<bar> < 2 ^ 53 \<Longrightarrow> ulp_exp r \<le> 0"
proof (cases "r = 0")
  case True
  then show ?thesis by (simp add: ulp_exp_def expo_zero)
next
  case False
  assume "\<bar>r\<bar> < 2 ^ 53"
  then have "\<bar>r\<bar> < 2 powi 53" by simp
  from ulp_exp_le [OF False this] show ?thesis by simp
qed

lemma rnd_of_int: "\<bar>k\<bar> < 2 ^ 53 \<Longrightarrow> rnd (of_int k) = of_int k"
proof -
  assume a: "\<bar>k\<bar> < 2 ^ 53"
  have "(of_int \<bar>k\<bar> :: real) < of_int (2 ^ 53)"
    using a by (simp only: of_int_less_iff)
  then have "\<bar>of_int k :: real\<bar> < 2 ^ 53" by simp
  then have e: "ulp_exp (of_int k) \<le> 0" by (rule ulp_exp_nonpos)
  show ?thesis using rnd_le_int [OF e, of k] rnd_ge_int [OF e, of k] by simp
qed

lemma and_then_Inr: "and_then (Inr v) f = f v"
  by (simp add: and_then_def)

lemma and_then_Inl: "and_then (Inl e) f = Inl e"
  by (simp add: and_then_def)

text \<open>
  To run the model on numerals the simplifier evaluates the first argument of
  \<open>and_then\<close> before it enters the continuation.
\<close>

lemma and_then_weak_cong: "m = m' \<Longrightarrow> and_then m f = and_then m' f"
  by simp

lemmas float_eval = div100_def fl_def rnd_def ulp_exp_def rhe_def expo.simps Let_def py_int_def
  and_then_Inr and_then_Inl

lemma fl_finite: "\<bar>rnd r\<bar> < 2 ^ 1024 \<Longrightarrow> fl r = Inr (rnd r)"
  by (simp add: fl_def Let_def)

lemma rnd_unit_interval:
  assumes "0 \<le> r" and "r \<le> 1"
  shows "0 \<le> rnd r \<and> rnd r \<le> 1 \<and> \<bar>rnd r - r\<bar> \<le> 1 / 2 ^ 54"
proof -
  have e: "ulp_exp r \<le> 0" using assms by (intro ulp_exp_nonpos) auto
  have lo: "0 \<le> rnd r" using rnd_ge_int [OF e, of 0] assms by simp
  have hi: "rnd r \<le> 1" using rnd_le_int [OF e, of 1] assms by simp
  have err: "\<bar>rnd r - r\<bar> \<le> 1 / 2 ^ 54"
  proof (cases "r = 0 \<or> r = 1")
    case True
    then show ?thesis using rnd_zero rnd_of_int [of 1] by auto
  next
    case False
    then have "r \<noteq> 0" and "\<bar>r\<bar> < 2 powi 0" using assms by auto
    then have "ulp_exp r \<le> 0 - 53" by (intro ulp_exp_le) auto
    then have "(2::real) powi ulp_exp r \<le> 2 powi (- 53)"
      by (intro power_int_increasing) auto
    then have "(2::real) powi ulp_exp r / 2 \<le> 1 / 2 ^ 54" by simp
    then show ?thesis using rnd_error [of r] by linarith
  qed
  show ?thesis using lo hi err by simp
qed

lemma rnd_below_size:
  assumes "0 \<le> r" and "r \<le> of_int k" and "k < 2 ^ 31"
  shows "0 \<le> rnd r \<and> rnd r \<le> of_int k \<and> \<bar>rnd r - r\<bar> \<le> 1 / 2 ^ 23"
proof -
  have k: "(of_int k :: real) < of_int (2 ^ 31)" using assms(3) by (simp only: of_int_less_iff)
  then have r31: "r < 2 ^ 31" using assms(2) by simp
  have e: "ulp_exp r \<le> 0" using assms(1) r31 by (intro ulp_exp_nonpos) auto
  have lo: "0 \<le> rnd r" using rnd_ge_int [OF e, of 0] assms by simp
  have hi: "rnd r \<le> of_int k" using rnd_le_int [OF e assms(2)] .
  have err: "\<bar>rnd r - r\<bar> \<le> 1 / 2 ^ 23"
  proof (cases "r = 0")
    case True
    then show ?thesis using rnd_zero by auto
  next
    case False
    have "\<bar>r\<bar> < 2 powi 31" using assms(1) r31 by simp
    with False have "ulp_exp r \<le> 31 - 53" by (intro ulp_exp_le) auto
    then have "(2::real) powi ulp_exp r \<le> 2 powi (- 22)"
      by (intro power_int_increasing) auto
    then have "(2::real) powi ulp_exp r / 2 \<le> 1 / 2 ^ 23" by simp
    then show ?thesis using rnd_error [of r] by linarith
  qed
  show ?thesis using lo hi err by simp
qed

subsection \<open>The inner size\<close>

text \<open>The float pipeline of the inner size, for a padding below 100 percent.\<close>

lemma inner_size_float:
  assumes t: "0 < tsize" "tsize < 2 ^ 31" and p: "0 \<le> num_val p" "num_val p < 100"
  shows "\<exists>z. inner_size_of tsize p = Inr \<lfloor>z\<rfloor> \<and> 0 \<le> z \<and> z \<le> of_int tsize
           \<and> \<bar>z - of_int tsize * (1 - num_val p / 100)\<bar> < 1 / 2"
proof -
  define q where "q = num_val p / 100"
  define x where "x = rnd q"
  define y where "y = rnd (1 - x)"
  define w where "w = of_int tsize * y"
  define z where "z = rnd w"
  have q: "0 \<le> q" "q \<le> 1" using p by (simp_all add: q_def)
  have x: "0 \<le> x" "x \<le> 1" "\<bar>x - q\<bar> \<le> 1 / 2 ^ 54"
    using rnd_unit_interval [OF q] by (simp_all add: x_def)
  have u: "0 \<le> 1 - x" "1 - x \<le> 1" using x by simp_all
  have y: "0 \<le> y" "y \<le> 1" "\<bar>y - (1 - x)\<bar> \<le> 1 / 2 ^ 54"
    using rnd_unit_interval [OF u] by (simp_all add: y_def)
  have T: "(0::real) < of_int tsize" using t by simp
  have T31: "(of_int tsize :: real) < of_int (2 ^ 31)" using t(2) by (simp only: of_int_less_iff)
  have w: "0 \<le> w" "w \<le> of_int tsize"
    using y T by (simp_all add: w_def mult_left_le)
  have z: "0 \<le> z" "z \<le> of_int tsize" "\<bar>z - w\<bar> \<le> 1 / 2 ^ 23"
    using rnd_below_size [OF w t(2)] by (simp_all add: z_def)
  have fs: "rnd (of_int tsize) = of_int tsize" using t by (intro rnd_of_int) auto
  have big: "(of_int tsize :: real) < 2 ^ 1024"
  proof -
    have "(2::real) ^ 31 \<le> 2 ^ 1024" by (intro power_increasing) auto
    then show ?thesis using T31 by simp
  qed
  have f1: "div100 p = Inr x"
    unfolding div100_def q_def [symmetric] x_def using x big T
    by (intro fl_finite) (simp add: x_def [symmetric])
  have f2: "fl (1 - x) = Inr y"
    unfolding y_def using y big T by (intro fl_finite) (simp add: y_def [symmetric])
  have f3: "fl (of_int tsize) = Inr (of_int tsize)"
    using fl_finite [of "of_int tsize"] fs big T by simp
  have f4: "fl (of_int tsize * y) = Inr z"
    unfolding z_def w_def [symmetric] using z big by (intro fl_finite) (simp add: z_def [symmetric])
  have res: "inner_size_of tsize p = Inr \<lfloor>z\<rfloor>"
    unfolding inner_size_of_def f1 f2 f3 f4 and_then_Inr using z by (simp add: py_int_def)
  have "\<bar>y - (1 - q)\<bar> \<le> \<bar>y - (1 - x)\<bar> + \<bar>x - q\<bar>" by linarith
  also have "\<dots> \<le> 1 / 2 ^ 54 + 1 / 2 ^ 54" using x(3) y(3) by (intro add_mono)
  finally have yq: "\<bar>y - (1 - q)\<bar> \<le> 1 / 2 ^ 53" by simp
  have "\<bar>w - of_int tsize * (1 - q)\<bar> = of_int tsize * \<bar>y - (1 - q)\<bar>"
    using T by (simp add: w_def abs_mult flip: right_diff_distrib)
  also have "\<dots> \<le> 2 ^ 31 * (1 / 2 ^ 53)"
    using T T31 yq by (intro mult_mono) auto
  finally have we: "\<bar>w - of_int tsize * (1 - q)\<bar> \<le> 1 / 2 ^ 22" by simp
  have "\<bar>z - of_int tsize * (1 - q)\<bar> \<le> \<bar>z - w\<bar> + \<bar>w - of_int tsize * (1 - q)\<bar>" by linarith
  also have "\<dots> \<le> 1 / 2 ^ 23 + 1 / 2 ^ 22" using z(3) we by (intro add_mono)
  also have "\<dots> < 1 / 2" by simp
  finally have "\<bar>z - of_int tsize * (1 - q)\<bar> < 1 / 2" .
  then show ?thesis using res z by (auto simp: q_def)
qed

lemma py_int_of_int: "py_int (of_int k) = k"
  by (simp add: py_int_def)

lemma rnd_one: "rnd 1 = 1"
  using rnd_of_int [of 1] by simp

lemma inner_size_no_padding:
  assumes "\<bar>tsize\<bar> < 2 ^ 53" and "num_val p = 0"
  shows "inner_size_of tsize p = Inr tsize"
proof -
  have f0: "fl 0 = Inr 0" by (simp add: fl_def rnd_zero)
  have f1: "fl 1 = Inr 1" by (simp add: fl_def rnd_one)
  have "(of_int \<bar>tsize\<bar> :: real) < of_int (2 ^ 53)"
    using assms(1) by (simp only: of_int_less_iff)
  moreover have "(2::real) ^ 53 \<le> 2 ^ 1024" by (intro power_increasing) auto
  ultimately have "\<bar>of_int tsize :: real\<bar> < 2 ^ 1024" by simp
  then have ft: "fl (of_int tsize) = Inr (of_int tsize)"
    using rnd_of_int [OF assms(1)] by (simp add: fl_def)
  show ?thesis
    by (simp add: inner_size_of_def div100_def assms(2) f0 f1 ft and_then_Inr py_int_of_int)
qed

lemma floor_close:
  fixes z E :: real
  assumes "\<bar>z - E\<bar> < 1 / 2"
  shows "\<bar>\<lfloor>z\<rfloor> - \<lfloor>E\<rfloor>\<bar> \<le> 1"
proof -
  have "of_int \<lfloor>z\<rfloor> \<le> z" "z < of_int \<lfloor>z\<rfloor> + 1" "of_int \<lfloor>E\<rfloor> \<le> E" "E < of_int \<lfloor>E\<rfloor> + 1"
    by linarith+
  then have "(of_int \<lfloor>z\<rfloor> :: real) < of_int \<lfloor>E\<rfloor> + 2" "(of_int \<lfloor>E\<rfloor> :: real) < of_int \<lfloor>z\<rfloor> + 2"
    using assms by linarith+
  then have "\<lfloor>z\<rfloor> < \<lfloor>E\<rfloor> + 2" "\<lfloor>E\<rfloor> < \<lfloor>z\<rfloor> + 2" by linarith+
  then show ?thesis by linarith
qed


lemma rnd_bounded:
  assumes "0 \<le> r" and "r \<le> of_int k" and "k < 2 ^ 53"
  shows "0 \<le> rnd r \<and> rnd r \<le> of_int k"
proof -
  have "(of_int k :: real) < of_int (2 ^ 53)" using assms(3) by (simp only: of_int_less_iff)
  then have "\<bar>r\<bar> < 2 ^ 53" using assms(1,2) by simp
  then have e: "ulp_exp r \<le> 0" by (rule ulp_exp_nonpos)
  show ?thesis using rnd_ge_int [OF e, of 0] rnd_le_int [OF e assms(2)] assms(1) by simp
qed

lemma rnd_error_below:
  assumes "\<bar>r\<bar> < 2 powi k" and "- 1021 \<le> k"
  shows "\<bar>rnd r - r\<bar> \<le> 2 powi (k - 54)"
proof (cases "r = 0")
  case True
  then show ?thesis by (simp add: rnd_zero)
next
  case False
  have "ulp_exp r \<le> k - 53" using False assms by (rule ulp_exp_le)
  then have "(2::real) powi ulp_exp r \<le> 2 powi (k - 53)"
    by (intro power_int_increasing) auto
  moreover have "(2::real) powi (k - 53) = 2 powi (k - 54) * 2"
    using power_int_add [of "2::real" "k - 54" 1] by simp
  ultimately show ?thesis using rnd_error [of r] by linarith
qed

lemma fl_bounded:
  assumes "0 \<le> r" and "r \<le> of_int k" and "k < 2 ^ 53"
  shows "fl r = Inr (rnd r)"
proof -
  have b: "0 \<le> rnd r \<and> rnd r \<le> of_int k" using assms by (rule rnd_bounded)
  have "(of_int k :: real) < of_int (2 ^ 53)" using assms(3) by (simp only: of_int_less_iff)
  moreover have "(2::real) ^ 53 \<le> 2 ^ 1024" by (intro power_increasing) auto
  ultimately have "\<bar>rnd r\<bar> < 2 ^ 1024" using b by simp
  then show ?thesis by (rule fl_finite)
qed

subsection \<open>Picture operations\<close>

lemma unat_u8_less: "unat (a :: u8) < 256"
  using unsigned_less [of a, where 'a = nat] by simp

lemma mul8_255: "mul8 a 255 = a"
proof -
  have "min 255 (unat a) = unat a" using unat_u8_less [of a] by simp
  then show ?thesis by (simp add: mul8_def)
qed

lemma mul8_0: "mul8 a 0 = 0"
  by (simp add: mul8_def)

lemma resize_ok:
  assumes "1 \<le> n"
  shows "\<exists>rs. resize lib img n n = Inr rs \<and> width rs = n \<and> height rs = n \<and> mode rs = mode img"
  using assms by (auto simp: resize_def)

lemma round_corners_eq:
  assumes "1 \<le> n" and "width rs = n" and "height rs = n"
  shows "round_corners lib rs n r =
    Inr (rs\<lparr>px := (\<lambda>x y. (px rs x y)\<lparr>alpha :=
      (if 0 \<le> x \<and> x < n \<and> 0 \<le> y \<and> y < n \<and> rounded_rectangle_fill lib 0 0 (n - 1) (n - 1) r x y
       then alpha (px rs x y) else 0)\<rparr>)\<rparr>)"
  using assms
  by (auto simp: round_corners_def image_new_def rounded_rectangle_def putalpha_def
      chop_multiply_def getchannel_A_def and_then_Inr mul8_255 mul8_0 fun_eq_iff
      intro!: arg_cong [where f = "\<lambda>f. px_update f rs"])

lemma compose_eq:
  assumes "0 \<le> tsize"
  shows "compose tsize n im =
    Inr \<lparr>mode = RGBA, width = tsize, height = tsize,
         px = (\<lambda>x y. if paste_pos tsize n \<le> x \<and> x < paste_pos tsize n + width im
                        \<and> paste_pos tsize n \<le> y \<and> y < paste_pos tsize n + height im
                        \<and> 0 \<le> x \<and> x < tsize \<and> 0 \<le> y \<and> y < tsize
                     then blend_pixel (alpha (px im (x - paste_pos tsize n) (y - paste_pos tsize n)))
                            transparent (px im (x - paste_pos tsize n) (y - paste_pos tsize n))
                     else transparent)\<rparr>"
  using assms by (simp add: compose_def image_new_def paste_def and_then_Inr cong: if_cong)

subsection \<open>The corner radius\<close>

lemma real_of_int_less_pow: "k < 2 ^ m \<Longrightarrow> (of_int k :: real) < 2 ^ m"
proof -
  assume "k < 2 ^ m"
  then have "(of_int k :: real) < of_int (2 ^ m)" by (simp only: of_int_less_iff)
  then show ?thesis by simp
qed

lemma fl_of_int: "\<bar>k\<bar> < 2 ^ 53 \<Longrightarrow> fl (of_int k) = Inr (of_int k)"
proof -
  assume a: "\<bar>k\<bar> < 2 ^ 53"
  have "(of_int \<bar>k\<bar> :: real) < 2 ^ 53" using a by (rule real_of_int_less_pow)
  moreover have "(2::real) ^ 53 \<le> 2 ^ 1024" by (intro power_increasing) auto
  ultimately have "\<bar>of_int k :: real\<bar> < 2 ^ 1024" by simp
  then show ?thesis using rnd_of_int [OF a] by (simp add: fl_def)
qed

text \<open>The float pipeline of the radius, for a percentage above 0 and up to 100.\<close>

lemma radius_int_percent:
  assumes n: "1 \<le> n" "n < 2 ^ 31" and k: "0 < k" "k \<le> 100"
  shows "\<exists>z. div100 (PyInt (n * k)) = Inr z \<and> 0 \<le> z \<and> \<lfloor>z\<rfloor> = n * k div 100"
proof -
  define r :: real where "r = of_int (n * k) / 100"
  define m where "m = n * k div 100"
  have nk: "0 \<le> n * k" using n k by simp
  have "(0::real) \<le> of_int (n * k)" using nk by (simp only: of_int_0_le_iff)
  then have r0: "0 \<le> r" by (simp add: r_def)
  have "n * k \<le> n * 100" using n k by (intro mult_left_mono) auto
  then have "(of_int (n * k) :: real) \<le> of_int (n * 100)" by (simp only: of_int_le_iff)
  then have rn: "r \<le> of_int n" by (simp add: r_def)
  have n53: "n < 2 ^ 53" using n(2) by simp
  have f: "fl r = Inr (rnd r)" using r0 rn n53 by (rule fl_bounded)
  have b: "0 \<le> rnd r" using rnd_bounded [OF r0 rn n53] by simp
  have "(of_int n :: real) < 2 ^ 31" using n(2) by (rule real_of_int_less_pow)
  then have "\<bar>r\<bar> < 2 powi 31" using r0 rn by simp
  then have "\<bar>rnd r - r\<bar> \<le> 2 powi (31 - 54)" by (rule rnd_error_below) simp
  then have err: "\<bar>rnd r - r\<bar> \<le> 1 / 2 ^ 23" by simp
  have split: "n * k = 100 * m + n * k mod 100" by (simp add: m_def)
  have "(of_int (n * k) :: real) = of_int (100 * m + n * k mod 100)"
    using split by simp
  then have req: "r = of_int m + of_int (n * k mod 100) / 100"
    by (simp add: r_def)
  have j: "0 \<le> n * k mod 100" "n * k mod 100 \<le> 99" by simp_all
  have jr: "(0::real) \<le> of_int (n * k mod 100)" "(of_int (n * k mod 100) :: real) \<le> 99"
    using j by (simp_all only: of_int_0_le_iff of_int_le_numeral_iff)
  have lo: "of_int m \<le> r" using req jr by simp
  have hi: "r \<le> of_int m + 99 / 100" using req jr by simp
  have e: "ulp_exp r \<le> 0"
    using r0 rn \<open>(of_int n :: real) < 2 ^ 31\<close> by (intro ulp_exp_nonpos) simp
  have zlo: "of_int m \<le> rnd r" using rnd_ge_int [OF e lo] .
  have "rnd r \<le> r + 1 / 2 ^ 23" using err by linarith
  then have zhi: "rnd r < of_int m + 1" using hi by simp
  have "\<lfloor>rnd r\<rfloor> = m" using zlo zhi by (simp add: floor_unique)
  then show ?thesis using f b by (auto simp: div100_def r_def m_def)
qed

lemma radius_float_percent:
  assumes n: "1 \<le> n" "n < 2 ^ 31" and f: "0 < f" "f \<le> 100"
  shows "\<exists>v z. int_times n (PyFloat f) = Inr (PyFloat v) \<and> div100 (PyFloat v) = Inr z \<and> 0 \<le> z
           \<and> \<bar>z - of_int n * (f / 100)\<bar> < 1 / 2"
proof -
  define v where "v = rnd (of_int n * f)"
  define z where "z = rnd (v / 100)"
  have N: "(1::real) \<le> of_int n" using n(1) by simp
  have N31: "(of_int n :: real) < 2 ^ 31" using n(2) by (rule real_of_int_less_pow)
  have fn: "fl (of_int n) = Inr (of_int n)" using n by (intro fl_of_int) simp
  have w0: "0 \<le> of_int n * f" using N f by simp
  have "of_int n * f \<le> of_int n * 100" using N f by (intro mult_left_mono) auto
  then have w1: "of_int n * f \<le> of_int (n * 100)" by simp
  have k: "n * 100 < 2 ^ 53" using n(2) by simp
  have fv: "fl (of_int n * f) = Inr v" unfolding v_def using w0 w1 k by (rule fl_bounded)
  have v: "0 \<le> v" "v \<le> of_int (n * 100)" using rnd_bounded [OF w0 w1 k] by (simp_all add: v_def)
  have "of_int n * f < 2 ^ 38" using w1 N31 by simp
  then have "\<bar>of_int n * f\<bar> < 2 powi 38" using w0 by simp
  then have "\<bar>v - of_int n * f\<bar> \<le> 2 powi (38 - 54)" unfolding v_def by (rule rnd_error_below) simp
  then have verr: "\<bar>v - of_int n * f\<bar> \<le> 1 / 2 ^ 16" by simp
  have q0: "0 \<le> v / 100" using v by simp
  have q1: "v / 100 \<le> of_int n" using v by simp
  have n53: "n < 2 ^ 53" using n(2) by simp
  have fz: "fl (v / 100) = Inr z" unfolding z_def using q0 q1 n53 by (rule fl_bounded)
  have z0: "0 \<le> z" using rnd_bounded [OF q0 q1 n53] by (simp add: z_def)
  have "\<bar>v / 100\<bar> < 2 powi 31" using q0 q1 N31 by simp
  then have "\<bar>z - v / 100\<bar> \<le> 2 powi (31 - 54)" unfolding z_def by (rule rnd_error_below) simp
  then have zerr: "\<bar>z - v / 100\<bar> \<le> 1 / 2 ^ 23" by simp
  have "z - of_int n * (f / 100) = (z - v / 100) + (v - of_int n * f) / 100"
    by (simp add: field_simps)
  then have "\<bar>z - of_int n * (f / 100)\<bar> \<le> \<bar>z - v / 100\<bar> + \<bar>(v - of_int n * f) / 100\<bar>"
    by (simp only: abs_triangle_ineq)
  also have "\<bar>(v - of_int n * f) / 100\<bar> = \<bar>v - of_int n * f\<bar> / 100" by simp
  finally have "\<bar>z - of_int n * (f / 100)\<bar> \<le> \<bar>z - v / 100\<bar> + \<bar>v - of_int n * f\<bar> / 100" .
  also have "\<dots> \<le> 1 / 2 ^ 23 + (1 / 2 ^ 16) / 100"
    using zerr verr by (intro add_mono divide_right_mono) auto
  also have "\<dots> < 1 / 2" by simp
  finally have close: "\<bar>z - of_int n * (f / 100)\<bar> < 1 / 2" .
  show ?thesis using close fn fv fz z0 by (simp add: and_then_Inr div100_def)
qed

lemma max_floor_close:
  fixes z E :: real
  assumes "\<bar>z - E\<bar> < 1 / 2"
  shows "\<bar>max 1 \<lfloor>z\<rfloor> - max 1 \<lfloor>E\<rfloor>\<bar> \<le> 1"
  using floor_close [OF assms] by linarith

lemma corner_radius_defined:
  assumes n: "1 \<le> n" "n < 2 ^ 31" and c: "0 < num_val c" "num_val c \<le> 100"
  shows "\<exists>r. corner_radius_of n c = Inr r \<and> 1 \<le> r
           \<and> \<bar>r - max 1 \<lfloor>of_int n * (num_val c / 100)\<rfloor>\<bar> \<le> 1"
proof (cases c)
  case (PyInt k)
  have k: "0 < k" "k \<le> 100" using c PyInt by simp_all
  obtain z where z: "div100 (PyInt (n * k)) = Inr z" "0 \<le> z" "\<lfloor>z\<rfloor> = n * k div 100"
    using radius_int_percent [OF n k] by blast
  have "of_int n * (of_int k / 100) = (of_int (n * k) :: real) / of_int 100" by simp
  then have "\<lfloor>of_int n * (of_int k / 100 :: real)\<rfloor> = n * k div 100"
    by (simp only: floor_divide_of_int_eq)
  then show ?thesis using z PyInt by (simp add: corner_radius_of_def and_then_Inr py_int_def)
next
  case (PyFloat f)
  have f: "0 < f" "f \<le> 100" using c PyFloat by simp_all
  obtain v z where z: "int_times n (PyFloat f) = Inr (PyFloat v)" "div100 (PyFloat v) = Inr z"
      "0 \<le> z" "\<bar>z - of_int n * (f / 100)\<bar> < 1 / 2"
    using radius_float_percent [OF n f] by blast
  have "\<bar>max 1 \<lfloor>z\<rfloor> - max 1 \<lfloor>of_int n * (f / 100)\<rfloor>\<bar> \<le> 1"
    using z(4) by (rule max_floor_close)
  then show ?thesis using z PyFloat by (simp add: corner_radius_of_def and_then_Inr py_int_def)
qed

lemma corner_radius_int:
  assumes n: "1 \<le> n" "n < 2 ^ 31" and k: "0 < k" "k \<le> 100"
  shows "corner_radius_of n (PyInt k) = Inr (max 1 \<lfloor>of_int n * (of_int k / 100 :: real)\<rfloor>)"
proof -
  obtain z where z: "div100 (PyInt (n * k)) = Inr z" "0 \<le> z" "\<lfloor>z\<rfloor> = n * k div 100"
    using radius_int_percent [OF n k] by blast
  have "of_int n * (of_int k / 100) = (of_int (n * k) :: real) / of_int 100" by simp
  then have "\<lfloor>of_int n * (of_int k / 100 :: real)\<rfloor> = n * k div 100"
    by (simp only: floor_divide_of_int_eq)
  then show ?thesis using z by (simp add: corner_radius_of_def and_then_Inr py_int_def)
qed

subsection \<open>The geometry of the paste\<close>

lemma inner_size_range:
  assumes "0 < tsize" and "tsize < 2 ^ 31" and "0 \<le> num_val p" and "num_val p < 100"
    and "inner_size_of tsize p = Inr n"
  shows "0 \<le> n \<and> n \<le> tsize"
proof -
  obtain z :: real where z: "inner_size_of tsize p = Inr \<lfloor>z\<rfloor>" "0 \<le> z" "z \<le> of_int tsize"
    using inner_size_float [OF assms(1-4)] by blast
  have "n = \<lfloor>z\<rfloor>" using z(1) assms(5) by simp
  then show ?thesis using z(2,3) by (simp add: floor_le_iff)
qed

lemma paste_pos_margins:
  assumes "0 \<le> n" and "n \<le> tsize"
  shows "0 \<le> paste_pos tsize n \<and> paste_pos tsize n + n \<le> tsize
         \<and> (tsize - (paste_pos tsize n + n) = paste_pos tsize n
            \<or> tsize - (paste_pos tsize n + n) = paste_pos tsize n + 1)"
  using assms unfolding paste_pos_def by linarith


subsection \<open>The steps of the function\<close>

lemma apply_corners_off: "num_val c \<le> 0 \<Longrightarrow> apply_corners lib rs n c = Inr rs"
  by (simp add: apply_corners_def)

lemma round_corners_alpha:
  assumes "1 \<le> n" and "width rs = n" and "height rs = n"
  shows "\<exists>im. round_corners lib rs n r = Inr im \<and> width im = n \<and> height im = n
           \<and> mode im = mode rs
           \<and> (\<forall>x y. alpha (px im x y) =
                 (if 0 \<le> x \<and> x < n \<and> 0 \<le> y \<and> y < n
                     \<and> rounded_rectangle_fill lib 0 0 (n - 1) (n - 1) r x y
                  then alpha (px rs x y) else 0))"
  unfolding round_corners_eq [OF assms] using assms by simp

lemma apply_corners_on:
  assumes "1 \<le> n" and "n < 2 ^ 31" and "0 < num_val c" and "num_val c \<le> 100"
    and "width rs = n" and "height rs = n"
  shows "\<exists>r im. corner_radius_of n c = Inr r \<and> 1 \<le> r
           \<and> \<bar>r - max 1 \<lfloor>of_int n * (num_val c / 100)\<rfloor>\<bar> \<le> 1
           \<and> apply_corners lib rs n c = round_corners lib rs n r
           \<and> round_corners lib rs n r = Inr im \<and> width im = n \<and> height im = n
           \<and> (\<forall>x y. alpha (px im x y) =
                 (if 0 \<le> x \<and> x < n \<and> 0 \<le> y \<and> y < n
                     \<and> rounded_rectangle_fill lib 0 0 (n - 1) (n - 1) r x y
                  then alpha (px rs x y) else 0))"
proof -
  obtain r where r: "corner_radius_of n c = Inr r" "1 \<le> r"
      "\<bar>r - max 1 \<lfloor>of_int n * (num_val c / 100)\<rfloor>\<bar> \<le> 1"
    using corner_radius_defined [OF assms(1-4)] by blast
  have a: "apply_corners lib rs n c = round_corners lib rs n r"
    using assms(3) r(1) by (simp add: apply_corners_def and_then_Inr)
  show ?thesis using r a round_corners_alpha [OF assms(1,5,6), of lib r] by blast
qed

lemma apply_corners_size:
  assumes "1 \<le> n" and "n < 2 ^ 31" and "num_val c \<le> 100"
    and "width rs = n" and "height rs = n"
  shows "\<exists>im. apply_corners lib rs n c = Inr im \<and> width im = n \<and> height im = n"
proof (cases "0 < num_val c")
  case True
  then show ?thesis using apply_corners_on [OF assms(1,2) True assms(3-5), of lib] by metis
next
  case False
  then show ?thesis using assms by (simp add: apply_corners_off)
qed

lemma compose_at:
  assumes "0 \<le> n" and "n \<le> tsize" and "width im = n" and "height im = n"
  shows "\<exists>out. compose tsize n im = Inr out \<and> mode out = RGBA \<and> width out = tsize
           \<and> height out = tsize
           \<and> (\<forall>x y. px out x y =
                 (if paste_pos tsize n \<le> x \<and> x < paste_pos tsize n + n
                     \<and> paste_pos tsize n \<le> y \<and> y < paste_pos tsize n + n
                  then blend_pixel (alpha (px im (x - paste_pos tsize n) (y - paste_pos tsize n)))
                         transparent (px im (x - paste_pos tsize n) (y - paste_pos tsize n))
                  else transparent))"
proof -
  have t: "0 \<le> tsize" using assms by simp
  have m: "0 \<le> paste_pos tsize n" "paste_pos tsize n + n \<le> tsize"
    using paste_pos_margins [OF assms(1,2)] by simp_all
  have "\<And>x y. (paste_pos tsize n \<le> x \<and> x < paste_pos tsize n + n
                     \<and> paste_pos tsize n \<le> y \<and> y < paste_pos tsize n + n
                     \<and> 0 \<le> x \<and> x < tsize \<and> 0 \<le> y \<and> y < tsize)
        = (paste_pos tsize n \<le> x \<and> x < paste_pos tsize n + n
                     \<and> paste_pos tsize n \<le> y \<and> y < paste_pos tsize n + n)"
    using m by auto
  then show ?thesis unfolding compose_eq [OF t] assms(3,4) by simp
qed

lemma create_ok:
  assumes "files w input_path = Some src"
    and "render_icon lib (convert_RGBA src) tsize p c = Inr out"
    and "output_path \<notin> unwritable w"
  shows "create_icon_with_padding lib w input_path output_path tsize p c =
    Inr (w\<lparr>files := (files w)(output_path \<mapsto> out),
           stdout := stdout w @ [created_message output_path tsize]\<rparr>)"
  using assms
  by (simp add: create_icon_with_padding_def image_open_def image_save_def py_print_def
      and_then_Inr)

text \<open>A valid request on a readable picture: every step succeeds.\<close>

lemma create_valid:
  assumes t: "0 < tsize" "tsize < 2 ^ 31" and p: "0 \<le> num_val p" "num_val p < 100"
    and c: "num_val c \<le> 100" and n: "inner_size_of tsize p = Inr n" "1 \<le> n"
    and io: "files w input_path = Some src" "output_path \<notin> unwritable w"
  shows "\<exists>rs im out. resize lib (convert_RGBA src) n n = Inr rs \<and> width rs = n \<and> height rs = n
           \<and> apply_corners lib rs n c = Inr im \<and> width im = n \<and> height im = n
           \<and> n \<le> tsize \<and> n < 2 ^ 31
           \<and> mode out = RGBA \<and> width out = tsize \<and> height out = tsize
           \<and> (\<forall>x y. px out x y =
                 (if paste_pos tsize n \<le> x \<and> x < paste_pos tsize n + n
                     \<and> paste_pos tsize n \<le> y \<and> y < paste_pos tsize n + n
                  then blend_pixel (alpha (px im (x - paste_pos tsize n) (y - paste_pos tsize n)))
                         transparent (px im (x - paste_pos tsize n) (y - paste_pos tsize n))
                  else transparent))
           \<and> render_icon lib (convert_RGBA src) tsize p c = Inr out
           \<and> create_icon_with_padding lib w input_path output_path tsize p c =
               Inr (w\<lparr>files := (files w)(output_path \<mapsto> out),
                      stdout := stdout w @ [created_message output_path tsize]\<rparr>)"
proof -
  have nr: "0 \<le> n" "n \<le> tsize" using inner_size_range [OF t p n(1)] by simp_all
  have n31: "n < 2 ^ 31" using nr t by simp
  obtain rs where rs: "resize lib (convert_RGBA src) n n = Inr rs" "width rs = n" "height rs = n"
    using resize_ok [OF n(2)] by blast
  obtain im where im: "apply_corners lib rs n c = Inr im" "width im = n" "height im = n"
    using apply_corners_size [OF n(2) n31 c rs(2,3)] by blast
  obtain out where out: "compose tsize n im = Inr out" "mode out = RGBA" "width out = tsize"
      "height out = tsize"
      "\<forall>x y. px out x y =
                 (if paste_pos tsize n \<le> x \<and> x < paste_pos tsize n + n
                     \<and> paste_pos tsize n \<le> y \<and> y < paste_pos tsize n + n
                  then blend_pixel (alpha (px im (x - paste_pos tsize n) (y - paste_pos tsize n)))
                         transparent (px im (x - paste_pos tsize n) (y - paste_pos tsize n))
                  else transparent)"
    using compose_at [OF nr im(2,3)] by blast
  have r: "render_icon lib (convert_RGBA src) tsize p c = Inr out"
    by (simp add: render_icon_def n(1) rs(1) im(1) out(1) and_then_Inr)
  show ?thesis using rs im nr n31 out(2-5) r create_ok [OF io(1) r io(2)] by blast
qed

subsection \<open>The blend of a pixel with itself\<close>

lemma div255_round: "v \<le> 65025 \<Longrightarrow> div255 v = (v + 127) div 255"
  unfolding div255_def Let_def by arith

lemma u8_square_le: "unat (a :: u8) * unat a \<le> 65025"
proof -
  have "unat a \<le> 255" using unat_u8_less [of a] by simp
  then have "unat a * unat a \<le> 255 * 255" by (intro mult_le_mono)
  then show ?thesis by simp
qed

lemma blend8_self: "unat (blend8 a 0 a) = (unat a * unat a + 127) div 255"
proof -
  have "(unat a * unat a + 127) div 255 \<le> (65025 + 127) div 255"
    using u8_square_le [of a] by (intro div_le_mono) simp
  then have small: "(unat a * unat a + 127) div 255 < 2 ^ LENGTH(8)" by simp
  have "blend8 a 0 a = word_of_nat ((unat a * unat a + 127) div 255)"
    by (simp add: blend8_def div255_round [OF u8_square_le])
  then show ?thesis using small by (simp add: unat_of_nat)
qed

lemma blend8_self_opaque: "blend8 255 0 255 = 255"
  by (simp add: blend8_def div255_def)

lemma blend8_self_clear: "blend8 0 0 0 = 0"
  by (simp add: blend8_def div255_def)

lemma blend8_self_less:
  assumes "0 < a" and "a < 255"
  shows "blend8 a 0 a < a"
proof -
  define u where "u = unat a"
  define i where "i = int u"
  have "0 < u" using assms(1) by (simp add: u_def word_greater_zero_iff unat_gt_0)
  moreover have "u < 255" using assms(2) by (simp add: u_def word_less_nat_alt)
  ultimately have r: "1 \<le> i" "i \<le> 254" unfolding i_def by linarith+
  then have "0 \<le> (i - 1) * (254 - i)" by (intro mult_nonneg_nonneg) auto
  then have "i * i + 254 \<le> 255 * i" by (simp add: algebra_simps)
  then have "int (u * u + 254) \<le> int (255 * u)" by (simp add: i_def)
  then have "u * u + 254 \<le> 255 * u" by (simp only: of_nat_le_iff)
  then have "unat a * unat a + 254 \<le> 255 * unat a" by (simp add: u_def)
  then have "(unat a * unat a + 127) div 255 < unat a" by arith
  then show ?thesis by (simp add: word_less_nat_alt blend8_self)
qed

lemma alpha_blend_transparent: "alpha (blend_pixel m transparent p) = blend8 m 0 (alpha p)"
  by (simp add: blend_pixel_def transparent_def)

subsection \<open>Failures\<close>















lemma create_unreadable:
  "files w input_path = None \<Longrightarrow>
     create_icon_with_padding lib w input_path output_path tsize p c = Inl IOError"
  by (simp add: create_icon_with_padding_def image_open_def and_then_Inl)

lemma create_unwritable:
  assumes "files w input_path = Some src"
    and "render_icon lib (convert_RGBA src) tsize p c = Inr out"
    and "output_path \<in> unwritable w"
  shows "create_icon_with_padding lib w input_path output_path tsize p c = Inl IOError"
  using assms
  by (simp add: create_icon_with_padding_def image_open_def image_save_def and_then_Inr
      and_then_Inl)

subsection \<open>The sample world\<close>

lemma sample_inner: "inner_size_of 3 (PyInt 0) = Inr 3"
  by (simp add: inner_size_of_def float_eval cong: and_then_weak_cong)


lemma sample_resize: "resize lib (convert_RGBA sample_icon) 3 3 = Inr (convert_RGBA sample_icon)"
  by (simp add: resize_def sample_icon_def convert_RGBA_def)

lemma sample_file: "files sample_world ''doc/icon.png'' = Some sample_icon"
  by (simp add: sample_world_def)

lemma sample_writable: "path \<notin> unwritable sample_world"
  by (simp add: sample_world_def)

lemma sample_size: "0 < width sample_icon" "0 < height sample_icon"
  by (simp_all add: sample_icon_def)

lemma sample_alpha:
  "alpha (px (convert_RGBA sample_icon) x y) =
     (if x = 1 \<and> y = 0 then 255 else if x = 1 \<and> y = 2 then 0 else 128)"
  by (simp add: sample_icon_def convert_RGBA_def)


lemma sample_message: "created_message ''out.png'' 3 = ''Created: out.png (3x3)''"
  by code_simp


lemma sample_plain:
  assumes "0 \<le> x" and "x < 3" and "0 \<le> y" and "y < 3"
  shows "\<exists>w' out. create_icon_with_padding demo_lib sample_world ''doc/icon.png'' ''out.png'' 3
               (PyInt 0) (PyInt 0) = Inr w'
           \<and> files w' ''out.png'' = Some out
           \<and> alpha (px out x y)
               = blend8 (alpha (px (convert_RGBA sample_icon) x y)) 0
                         (alpha (px (convert_RGBA sample_icon) x y))"
proof -
  obtain rs im out where v: "resize demo_lib (convert_RGBA sample_icon) 3 3 = Inr rs"
      "apply_corners demo_lib rs 3 (PyInt 0) = Inr im"
      "\<forall>x y. px out x y =
                 (if paste_pos 3 3 \<le> x \<and> x < paste_pos 3 3 + 3
                     \<and> paste_pos 3 3 \<le> y \<and> y < paste_pos 3 3 + 3
                  then blend_pixel (alpha (px im (x - paste_pos 3 3) (y - paste_pos 3 3)))
                         transparent (px im (x - paste_pos 3 3) (y - paste_pos 3 3))
                  else transparent)"
      "create_icon_with_padding demo_lib sample_world ''doc/icon.png'' ''out.png'' 3 (PyInt 0)
         (PyInt 0) =
         Inr (sample_world\<lparr>files := (files sample_world)(''out.png'' \<mapsto> out),
                stdout := stdout sample_world @ [created_message ''out.png'' 3]\<rparr>)"
    using create_valid [of 3 "PyInt 0" "PyInt 0" 3 sample_world "''doc/icon.png''" sample_icon
        "''out.png''" demo_lib, OF _ _ _ _ _ sample_inner _ sample_file sample_writable]
    by auto
  have rs: "rs = convert_RGBA sample_icon" using v(1) by (simp add: sample_resize)
  have im: "im = rs" using v(2) by (simp add: apply_corners_off)
  have "px out x y = blend_pixel (alpha (px im x y)) transparent (px im x y)"
    using v(3) [rule_format, of x y] assms by (simp add: paste_pos_def)
  then have "alpha (px out x y) = blend8 (alpha (px (convert_RGBA sample_icon) x y)) 0
                         (alpha (px (convert_RGBA sample_icon) x y))"
    by (simp add: alpha_blend_transparent im rs)
  then show ?thesis unfolding v(4) by simp
qed

section \<open>The claims of the specification\<close>

subsection \<open>C1: the size of the output\<close>



subsection \<open>C2: the inner size\<close>

text \<open>
  C2 (as amended). The script computes the inner size as the truncation of
  \<open>size * (1 - padding_percent / 100)\<close> evaluated in binary64 arithmetic. For a target
  size from 1 to \<open>2 ^ 31 - 1\<close> and a padding from 0 to below 100 percent the result
  exists, lies between 0 and the target size, and differs from
  \<open>floor (target_size * (1 - padding_fraction))\<close> by at most 1; a padding of 0 gives the
  target size exactly.
\<close>

theorem inner_size_within_one:
  assumes "0 < tsize" and "tsize < 2 ^ 31" and "0 \<le> num_val p" and "num_val p < 100"
  shows "(\<exists>n. inner_size_of tsize p = Inr n \<and> 0 \<le> n \<and> n \<le> tsize
            \<and> \<bar>n - \<lfloor>of_int tsize * (1 - num_val p / 100)\<rfloor>\<bar> \<le> 1)
         \<and> inner_size_of tsize (PyInt 0) = Inr tsize
         \<and> inner_size_of tsize (PyFloat 0) = Inr tsize"
proof -
  obtain z where z: "inner_size_of tsize p = Inr \<lfloor>z\<rfloor>" "0 \<le> z" "z \<le> of_int tsize"
      "\<bar>z - of_int tsize * (1 - num_val p / 100)\<bar> < 1 / 2"
    using inner_size_float [OF assms] by blast
  have "0 \<le> \<lfloor>z\<rfloor>" using z(2) by simp
  moreover have "\<lfloor>z\<rfloor> \<le> tsize" using z(3) by (simp add: floor_le_iff)
  moreover have "\<bar>\<lfloor>z\<rfloor> - \<lfloor>of_int tsize * (1 - num_val p / 100)\<rfloor>\<bar> \<le> 1"
    using z(4) by (rule floor_close)
  ultimately have first: "\<exists>n. inner_size_of tsize p = Inr n \<and> 0 \<le> n \<and> n \<le> tsize
            \<and> \<bar>n - \<lfloor>of_int tsize * (1 - num_val p / 100)\<rfloor>\<bar> \<le> 1"
    using z(1) by blast
  have t: "\<bar>tsize\<bar> < 2 ^ 53" using assms(1,2) by simp
  show ?thesis
    using first inner_size_no_padding [OF t, of "PyInt 0"] inner_size_no_padding [OF t, of "PyFloat 0"]
    by simp
qed

text \<open>The request of the driver for the 256 pixel icon: 15 percent padding.\<close>

theorem inner_size_within_one_witness:
  "inner_size_of 256 (PyInt 15) = Inr 217
   \<and> \<bar>217 - \<lfloor>(256::real) * (1 - 15 / 100)\<rfloor>\<bar> \<le> 1
   \<and> inner_size_of 256 (PyInt 0) = Inr 256"
proof -
  have e: "inner_size_of 256 (PyInt 15) = Inr 217"
    by (simp add: inner_size_of_def float_eval cong: and_then_weak_cong)
  have "(\<exists>n. inner_size_of 256 (PyInt 15) = Inr n \<and> 0 \<le> n \<and> n \<le> 256
            \<and> \<bar>n - \<lfloor>(256::real) * (1 - 15 / 100)\<rfloor>\<bar> \<le> 1)
         \<and> inner_size_of 256 (PyInt 0) = Inr 256"
    using inner_size_within_one [of 256 "PyInt 15"] by simp
  then show ?thesis using e by auto
qed

text \<open>
  C2 as stated fails: for a size of 10 and a padding of 80 percent the exact value
  \<open>10 * (1 - 0.8)\<close> is 2, but \<open>1 - 80 / 100\<close> is \<open>0.19999999999999996\<close> in binary64,
  the product is \<open>1.9999999999999996\<close>, and the script gets an inner size of 1. With
  a padding of 90 percent the exact value is 1 and the script gets 0.
\<close>

theorem inner_size_floor_counterexample:
  "inner_size_of 10 (PyInt 80) = Inr 1 \<and> \<lfloor>(10::real) * (1 - 80 / 100)\<rfloor> = 2
   \<and> inner_size_of 10 (PyInt 90) = Inr 0 \<and> \<lfloor>(10::real) * (1 - 90 / 100)\<rfloor> = 1"
proof -
  have "inner_size_of 10 (PyInt 80) = Inr 1"
    by (simp add: inner_size_of_def float_eval cong: and_then_weak_cong)
  moreover have "inner_size_of 10 (PyInt 90) = Inr 0"
    by (simp add: inner_size_of_def float_eval cong: and_then_weak_cong)
  ultimately show ?thesis by simp
qed

subsection \<open>C3: the alpha channel under the rounded mask\<close>




subsection \<open>C4: the corner radius\<close>

text \<open>
  C4 (as amended). For an inner size \<open>n\<close> from 1 to \<open>2 ^ 31 - 1\<close> and a corner radius
  above 0 and up to 100 percent, the radius is computed from the inner size (not from
  the target size), is at least 1, is the radius of the mask that the render draws,
  and differs from \<open>max 1 (floor (n * corner_radius_fraction))\<close> by at most 1; for an
  integer percentage it is exactly that value.
\<close>

theorem radius_from_inner_size:
  assumes "inner_size_of tsize p = Inr n" and "1 \<le> n" and "n < 2 ^ 31"
    and "0 < num_val c" and "num_val c \<le> 100" and "0 < k" and "k \<le> 100"
  shows "(\<exists>r. corner_radius_of n c = Inr r \<and> 1 \<le> r
            \<and> \<bar>r - max 1 \<lfloor>of_int n * (num_val c / 100)\<rfloor>\<bar> \<le> 1
            \<and> render_icon lib img tsize p c =
                and_then (resize lib img n n) (\<lambda>rs.
                and_then (round_corners lib rs n r) (compose tsize n)))
         \<and> corner_radius_of n (PyInt k) = Inr (max 1 \<lfloor>of_int n * (of_int k / 100 :: real)\<rfloor>)"
proof -
  obtain r where r: "corner_radius_of n c = Inr r" "1 \<le> r"
      "\<bar>r - max 1 \<lfloor>of_int n * (num_val c / 100)\<rfloor>\<bar> \<le> 1"
    using corner_radius_defined [OF assms(2-5)] by blast
  have "render_icon lib img tsize p c =
          and_then (resize lib img n n) (\<lambda>rs.
          and_then (round_corners lib rs n r) (compose tsize n))"
    by (simp add: render_icon_def apply_corners_def assms(1,4) r(1) and_then_Inr)
  then show ?thesis using r corner_radius_int [OF assms(2,3,6,7)] by blast
qed

text \<open>
  The driver's request for the 256 pixel icon: inner size 217, radius 43.
\<close>

theorem radius_from_inner_size_witness:
  "inner_size_of 256 (PyInt 15) = Inr 217 \<and> corner_radius_of 217 (PyInt 20) = Inr 43
   \<and> max 1 \<lfloor>(217::real) * (20 / 100)\<rfloor> = 43"
proof -
  have n: "inner_size_of 256 (PyInt 15) = Inr 217"
    by (simp add: inner_size_of_def float_eval cong: and_then_weak_cong)
  have q: "(1::int) \<le> 217" "(217::int) < 2 ^ 31" "0 < num_val (PyInt 20)"
    "num_val (PyInt 20) \<le> 100" "(0::int) < 20" "(20::int) \<le> 100"
    by simp_all
  have "corner_radius_of 217 (PyInt 20) = Inr (max 1 \<lfloor>of_int 217 * (of_int 20 / 100 :: real)\<rfloor>)"
    using radius_from_inner_size [OF n q] by blast
  then show ?thesis using n by simp
qed

text \<open>
  C4 as stated fails for a float percentage: with an inner size of 12 and
  \<open>corner_radius_percent = 41.666666666666664\<close> (the binary64 number next to \<open>125 / 3\<close>,
  just below it) the exact value \<open>12 * 0.41666666666666664\<close> is below 5 and its floor
  is 4, but the float product \<open>12 * 41.666666666666664\<close> rounds to 500.0 and the script
  gets a radius of 5.
\<close>

theorem radius_floor_counterexample:
  "inner_size_of 12 (PyInt 0) = Inr 12
   \<and> corner_radius_of 12 (PyFloat (5864062014805333 / 140737488355328)) = Inr 5
   \<and> max 1 \<lfloor>(12::real) * ((5864062014805333 / 140737488355328) / 100)\<rfloor> = 4"
proof -
  have "inner_size_of 12 (PyInt 0) = Inr 12"
    by (simp add: inner_size_of_def float_eval cong: and_then_weak_cong)
  moreover have "corner_radius_of 12 (PyFloat (5864062014805333 / 140737488355328)) = Inr 5"
    by (simp add: corner_radius_of_def float_eval cong: and_then_weak_cong)
  ultimately show ?thesis by simp
qed

subsection \<open>C5: the position of the paste\<close>



subsection \<open>C6: degenerate sizes\<close>



subsection \<open>C7: the effects of the call\<close>

text \<open>
  C7 (as amended). The function itself opens the input path and saves the PNG to the
  output path and prints one line. A valid request on a readable picture and a
  writable output path leaves the rendered picture at the output path, every other
  file as it was, and one more line on the console; the same call fails with an
  \<^verbatim>\<open>OSError\<close> when the input file is absent or the output path cannot be written.
\<close>

theorem effects_of_create:
  assumes "0 < tsize" and "tsize < 2 ^ 31" and "0 \<le> num_val p" and "num_val p < 100"
    and "num_val c \<le> 100" and "inner_size_of tsize p = Inr n" and "1 \<le> n"
    and "files w input_path = Some src" and "output_path \<notin> unwritable w"
    and "0 < width src" and "0 < height src"
  shows "\<exists>w' out. create_icon_with_padding lib w input_path output_path tsize p c = Inr w'
           \<and> render_icon lib (convert_RGBA src) tsize p c = Inr out
           \<and> files w' output_path = Some out
           \<and> (\<forall>path. path \<noteq> output_path \<longrightarrow> files w' path = files w path)
           \<and> unwritable w' = unwritable w
           \<and> stdout w' = stdout w @ [created_message output_path tsize]
           \<and> create_icon_with_padding lib (w\<lparr>files := (files w)(input_path := None)\<rparr>)
                input_path output_path tsize p c = Inl IOError
           \<and> create_icon_with_padding lib (w\<lparr>unwritable := insert output_path (unwritable w)\<rparr>)
                input_path output_path tsize p c = Inl IOError"
proof -
  obtain out where out: "render_icon lib (convert_RGBA src) tsize p c = Inr out"
      "create_icon_with_padding lib w input_path output_path tsize p c =
         Inr (w\<lparr>files := (files w)(output_path \<mapsto> out),
                stdout := stdout w @ [created_message output_path tsize]\<rparr>)"
    using create_valid [OF assms(1-9), of lib] by blast
  have r: "create_icon_with_padding lib (w\<lparr>files := (files w)(input_path := None)\<rparr>)
                input_path output_path tsize p c = Inl IOError"
    by (rule create_unreadable) simp
  have u: "create_icon_with_padding lib (w\<lparr>unwritable := insert output_path (unwritable w)\<rparr>)
                input_path output_path tsize p c = Inl IOError"
    using assms(8) out(1) by (intro create_unwritable [where src = src and out = out]) simp_all
  show ?thesis unfolding out(2) using out(1) r u by simp
qed

text \<open>
  On the sample world: the picture is written to \<^verbatim>\<open>out.png\<close>, the source file stays,
  and the line is printed.
\<close>

theorem effects_of_create_witness:
  "\<exists>w' out. create_icon_with_padding demo_lib sample_world ''doc/icon.png'' ''out.png'' 3
               (PyInt 0) (PyInt 0) = Inr w'
           \<and> files w' ''out.png'' = Some out
           \<and> files w' ''doc/icon.png'' = Some sample_icon
           \<and> stdout w' = [''Created: out.png (3x3)'']"
proof -
  have q: "(0::int) < 3" "(3::int) < 2 ^ 31" "0 \<le> num_val (PyInt 0)" "num_val (PyInt 0) < 100"
    "num_val (PyInt 0) \<le> 100" "(1::int) \<le> 3"
    by simp_all
  obtain w' out where h:
      "create_icon_with_padding demo_lib sample_world ''doc/icon.png'' ''out.png'' 3
         (PyInt 0) (PyInt 0) = Inr w'"
      "files w' ''out.png'' = Some out"
      "\<forall>path. path \<noteq> ''out.png'' \<longrightarrow> files w' path = files sample_world path"
      "stdout w' = stdout sample_world @ [created_message ''out.png'' 3]"
    using effects_of_create [where output_path = "''out.png''" and lib = demo_lib,
        OF q(1-5) sample_inner q(6) sample_file sample_writable sample_size]
    by blast
  have "files w' ''doc/icon.png'' = Some sample_icon"
    using h(3) [rule_format, of "''doc/icon.png''"] by (simp add: sample_file)
  moreover have "stdout w' = [''Created: out.png (3x3)'']"
    using h(4) by (simp add: sample_message sample_world_def)
  ultimately show ?thesis using h(1,2) by blast
qed

text \<open>
  C7 as stated fails: the call creates a file that was not there and prints a line,
  and without the input file the same call raises.
\<close>

theorem effects_of_create_counterexample:
  "files sample_world ''out.png'' = None \<and> stdout sample_world = []
   \<and> (\<exists>w' out. create_icon_with_padding demo_lib sample_world ''doc/icon.png'' ''out.png'' 3
               (PyInt 0) (PyInt 0) = Inr w'
           \<and> files w' ''out.png'' = Some out
           \<and> stdout w' = [''Created: out.png (3x3)''])
   \<and> create_icon_with_padding demo_lib (sample_world\<lparr>files := Map.empty\<rparr>) ''doc/icon.png''
        ''out.png'' 3 (PyInt 0) (PyInt 0) = Inl IOError"
proof -
  have q: "(0::int) < 3" "(3::int) < 2 ^ 31" "0 \<le> num_val (PyInt 0)" "num_val (PyInt 0) < 100"
    "num_val (PyInt 0) \<le> 100" "(1::int) \<le> 3"
    by simp_all
  obtain out where h:
      "create_icon_with_padding demo_lib sample_world ''doc/icon.png'' ''out.png'' 3
         (PyInt 0) (PyInt 0) =
         Inr (sample_world\<lparr>files := (files sample_world)(''out.png'' \<mapsto> out),
                stdout := stdout sample_world @ [created_message ''out.png'' 3]\<rparr>)"
    using create_valid [where output_path = "''out.png''" and lib = demo_lib,
        OF q(1-5) sample_inner q(6) sample_file sample_writable]
    by blast
  have a: "\<exists>w' out. create_icon_with_padding demo_lib sample_world ''doc/icon.png'' ''out.png'' 3
               (PyInt 0) (PyInt 0) = Inr w'
           \<and> files w' ''out.png'' = Some out
           \<and> stdout w' = [''Created: out.png (3x3)'']"
    unfolding h by (simp add: sample_message sample_world_def)
  have b: "create_icon_with_padding demo_lib (sample_world\<lparr>files := Map.empty\<rparr>) ''doc/icon.png''
        ''out.png'' 3 (PyInt 0) (PyInt 0) = Inl IOError"
    by (rule create_unreadable) simp
  show ?thesis using a b by (simp add: sample_world_def)
qed

subsection \<open>C8: no rounding for a radius of 0\<close>

text \<open>
  C8 (as amended). For a valid request with a corner radius of 0 no mask is built:
  the picture that is pasted is the resized picture itself. Each pixel of the inner
  region, its four extreme corners too, has in the output the blend of its resized
  alpha \<open>a\<close> with itself, which is \<open>a\<close> again when \<open>a\<close> is 0 or 255.
\<close>

theorem no_rounding_without_radius:
  assumes "0 < tsize" and "tsize < 2 ^ 31" and "0 \<le> num_val p" and "num_val p < 100"
    and "num_val c = 0" and "inner_size_of tsize p = Inr n" and "1 \<le> n"
    and "files w input_path = Some src" and "output_path \<notin> unwritable w"
    and "0 \<le> x" and "x < n" and "0 \<le> y" and "y < n"
    and "0 < width src" and "0 < height src"
  shows "\<exists>w' out rs. create_icon_with_padding lib w input_path output_path tsize p c = Inr w'
           \<and> files w' output_path = Some out
           \<and> resize lib (convert_RGBA src) n n = Inr rs \<and> apply_corners lib rs n c = Inr rs
           \<and> alpha (px out (paste_pos tsize n + x) (paste_pos tsize n + y))
               = blend8 (alpha (px rs x y)) 0 (alpha (px rs x y))
           \<and> (alpha (px rs x y) = 0 \<or> alpha (px rs x y) = 255
                \<longrightarrow> alpha (px out (paste_pos tsize n + x) (paste_pos tsize n + y))
                      = alpha (px rs x y))"
proof -
  have c: "num_val c \<le> 100" "num_val c \<le> 0" using assms(5) by simp_all
  obtain rs im out where v: "resize lib (convert_RGBA src) n n = Inr rs"
      "apply_corners lib rs n c = Inr im"
      "\<forall>x y. px out x y =
                 (if paste_pos tsize n \<le> x \<and> x < paste_pos tsize n + n
                     \<and> paste_pos tsize n \<le> y \<and> y < paste_pos tsize n + n
                  then blend_pixel (alpha (px im (x - paste_pos tsize n) (y - paste_pos tsize n)))
                         transparent (px im (x - paste_pos tsize n) (y - paste_pos tsize n))
                  else transparent)"
      "create_icon_with_padding lib w input_path output_path tsize p c =
         Inr (w\<lparr>files := (files w)(output_path \<mapsto> out),
                stdout := stdout w @ [created_message output_path tsize]\<rparr>)"
    using create_valid [OF assms(1-4) c(1) assms(6-9), of lib] by blast
  have same: "im = rs" using v(2) apply_corners_off [OF c(2), of lib rs n] by simp
  define a where "a = alpha (px rs x y)"
  have "px out (paste_pos tsize n + x) (paste_pos tsize n + y)
          = blend_pixel (alpha (px rs x y)) transparent (px rs x y)"
    using v(3) [rule_format, of "paste_pos tsize n + x" "paste_pos tsize n + y"] assms(10-13)
    by (simp add: same)
  then have o: "alpha (px out (paste_pos tsize n + x) (paste_pos tsize n + y)) = blend8 a 0 a"
    by (simp add: alpha_blend_transparent a_def)
  have k: "a = 0 \<or> a = 255
      \<longrightarrow> alpha (px out (paste_pos tsize n + x) (paste_pos tsize n + y)) = a"
    using o blend8_self_clear blend8_self_opaque by auto
  have f: "files (w\<lparr>files := (files w)(output_path \<mapsto> out),
                stdout := stdout w @ [created_message output_path tsize]\<rparr>) output_path = Some out"
    by simp
  have ac: "apply_corners lib rs n c = Inr rs" using v(2) same by simp
  show ?thesis using v(1,4) ac f o k unfolding a_def by blast
qed

text \<open>
  On the sample picture: the opaque pixel stays opaque and the transparent one
  transparent.
\<close>

theorem no_rounding_without_radius_witness:
  "\<exists>w' out. create_icon_with_padding demo_lib sample_world ''doc/icon.png'' ''out.png'' 3
               (PyInt 0) (PyInt 0) = Inr w'
           \<and> files w' ''out.png'' = Some out
           \<and> alpha (px sample_icon 1 0) = 255 \<and> alpha (px out 1 0) = 255
           \<and> alpha (px sample_icon 1 2) = 0 \<and> alpha (px out 1 2) = 0"
proof -
  have pos: "paste_pos 3 3 = 0" by (simp add: paste_pos_def)
  have q: "(0::int) < 3" "(3::int) < 2 ^ 31" "0 \<le> num_val (PyInt 0)" "num_val (PyInt 0) < 100"
    "num_val (PyInt 0) = 0" "(1::int) \<le> 3"
    by simp_all
  have t: "\<exists>w' out. create_icon_with_padding demo_lib sample_world ''doc/icon.png'' ''out.png'' 3
               (PyInt 0) (PyInt 0) = Inr w'
           \<and> files w' ''out.png'' = Some out
           \<and> alpha (px out x y)
               = blend8 (alpha (px (convert_RGBA sample_icon) x y)) 0
                   (alpha (px (convert_RGBA sample_icon) x y))"
    if xy: "0 \<le> x" "x < 3" "0 \<le> y" "y < 3" for x y
  proof -
    obtain w' out rs where h:
        "create_icon_with_padding demo_lib sample_world ''doc/icon.png'' ''out.png'' 3
           (PyInt 0) (PyInt 0) = Inr w'"
        "files w' ''out.png'' = Some out"
        "resize demo_lib (convert_RGBA sample_icon) 3 3 = Inr rs"
        "alpha (px out (paste_pos 3 3 + x) (paste_pos 3 3 + y))
           = blend8 (alpha (px rs x y)) 0 (alpha (px rs x y))"
      using no_rounding_without_radius [where output_path = "''out.png''" and lib = demo_lib,
          OF q(1-5) sample_inner q(6) sample_file sample_writable xy sample_size]
      by blast
    have "rs = convert_RGBA sample_icon" using h(3) by (simp add: sample_resize)
    then show ?thesis using h(1,2,4) by (simp add: pos)
  qed
  obtain w' out where w: "create_icon_with_padding demo_lib sample_world ''doc/icon.png''
      ''out.png'' 3 (PyInt 0) (PyInt 0) = Inr w'" "files w' ''out.png'' = Some out"
    using t [of 0 0] by auto
  have a: "\<And>x y. 0 \<le> x \<Longrightarrow> x < 3 \<Longrightarrow> 0 \<le> y \<Longrightarrow> y < 3 \<Longrightarrow>
      alpha (px out x y)
               = blend8 (alpha (px (convert_RGBA sample_icon) x y)) 0
                   (alpha (px (convert_RGBA sample_icon) x y))"
    using t w by fastforce
  have "alpha (px out 1 0) = 255" "alpha (px out 1 2) = 0"
    using a [of 1 0] a [of 1 2] by (simp_all add: sample_alpha blend8_def div255_def)
  then show ?thesis using w by (simp add: sample_icon_def)
qed

text \<open>
  C8 as stated fails: the four extreme corner pixels of the sample picture have alpha
  128, and alpha 64 in the output.
\<close>

theorem no_rounding_without_radius_counterexample:
  "\<exists>w' out. create_icon_with_padding demo_lib sample_world ''doc/icon.png'' ''out.png'' 3
               (PyInt 0) (PyInt 0) = Inr w'
           \<and> files w' ''out.png'' = Some out
           \<and> resize demo_lib (convert_RGBA sample_icon) 3 3 = Inr (convert_RGBA sample_icon)
           \<and> alpha (px (convert_RGBA sample_icon) 0 0) = 128 \<and> alpha (px out 0 0) = 64
           \<and> alpha (px (convert_RGBA sample_icon) 2 0) = 128 \<and> alpha (px out 2 0) = 64
           \<and> alpha (px (convert_RGBA sample_icon) 0 2) = 128 \<and> alpha (px out 0 2) = 64
           \<and> alpha (px (convert_RGBA sample_icon) 2 2) = 128 \<and> alpha (px out 2 2) = 64"
proof -
  obtain w' out where w: "create_icon_with_padding demo_lib sample_world ''doc/icon.png''
      ''out.png'' 3 (PyInt 0) (PyInt 0) = Inr w'" "files w' ''out.png'' = Some out"
    using sample_plain [of 0 0] by auto
  have a: "\<And>x y. 0 \<le> x \<Longrightarrow> x < 3 \<Longrightarrow> 0 \<le> y \<Longrightarrow> y < 3 \<Longrightarrow>
      alpha (px out x y)
               = blend8 (alpha (px (convert_RGBA sample_icon) x y)) 0
                   (alpha (px (convert_RGBA sample_icon) x y))"
    using sample_plain w by fastforce
  have "alpha (px out 0 0) = 64" "alpha (px out 2 0) = 64" "alpha (px out 0 2) = 64"
    "alpha (px out 2 2) = 64"
    using a [of 0 0] a [of 2 0] a [of 0 2] a [of 2 2]
    by (simp_all add: sample_alpha blend8_def div255_def)
  then show ?thesis using w sample_resize by (simp add: sample_alpha)
qed

subsection \<open>C9: determinism\<close>



subsection \<open>C10: the paste with the picture as its own mask\<close>

text \<open>
  C10. For a valid request and a pixel \<open>(x, y)\<close> of the inner region, the alpha of the
  output at \<open>(pos + x, pos + y)\<close> is the blend of the alpha \<open>a\<close> of the pasted picture
  with itself over the transparent canvas: \<open>a * a / 255\<close> rounded to the nearest
  integer. An opaque pixel stays opaque, a transparent one transparent, and a pixel
  with \<open>0 < a < 255\<close> ends with an alpha below \<open>a\<close>.
\<close>

theorem self_mask_squares_alpha:
  assumes "0 < tsize" and "tsize < 2 ^ 31" and "0 \<le> num_val p" and "num_val p < 100"
    and "num_val c \<le> 100" and "inner_size_of tsize p = Inr n" and "1 \<le> n"
    and "files w input_path = Some src" and "output_path \<notin> unwritable w"
    and "0 \<le> x" and "x < n" and "0 \<le> y" and "y < n"
    and "0 < width src" and "0 < height src"
  shows "\<exists>w' out rs im. create_icon_with_padding lib w input_path output_path tsize p c = Inr w'
           \<and> files w' output_path = Some out
           \<and> resize lib (convert_RGBA src) n n = Inr rs \<and> apply_corners lib rs n c = Inr im
           \<and> alpha (px out (paste_pos tsize n + x) (paste_pos tsize n + y))
               = blend8 (alpha (px im x y)) 0 (alpha (px im x y))
           \<and> unat (alpha (px out (paste_pos tsize n + x) (paste_pos tsize n + y)))
               = (unat (alpha (px im x y)) * unat (alpha (px im x y)) + 127) div 255
           \<and> (alpha (px im x y) = 255
                \<longrightarrow> alpha (px out (paste_pos tsize n + x) (paste_pos tsize n + y)) = 255)
           \<and> (alpha (px im x y) = 0
                \<longrightarrow> alpha (px out (paste_pos tsize n + x) (paste_pos tsize n + y)) = 0)
           \<and> (0 < alpha (px im x y) \<and> alpha (px im x y) < 255
                \<longrightarrow> alpha (px out (paste_pos tsize n + x) (paste_pos tsize n + y))
                       < alpha (px im x y))"
proof -
  obtain rs im out where v: "resize lib (convert_RGBA src) n n = Inr rs"
      "apply_corners lib rs n c = Inr im"
      "\<forall>x y. px out x y =
                 (if paste_pos tsize n \<le> x \<and> x < paste_pos tsize n + n
                     \<and> paste_pos tsize n \<le> y \<and> y < paste_pos tsize n + n
                  then blend_pixel (alpha (px im (x - paste_pos tsize n) (y - paste_pos tsize n)))
                         transparent (px im (x - paste_pos tsize n) (y - paste_pos tsize n))
                  else transparent)"
      "create_icon_with_padding lib w input_path output_path tsize p c =
         Inr (w\<lparr>files := (files w)(output_path \<mapsto> out),
                stdout := stdout w @ [created_message output_path tsize]\<rparr>)"
    using create_valid [OF assms(1-9), of lib] by blast
  define a where "a = alpha (px im x y)"
  have "px out (paste_pos tsize n + x) (paste_pos tsize n + y)
          = blend_pixel (alpha (px im x y)) transparent (px im x y)"
    using v(3) [rule_format, of "paste_pos tsize n + x" "paste_pos tsize n + y"] assms(10-13)
    by simp
  then have o: "alpha (px out (paste_pos tsize n + x) (paste_pos tsize n + y)) = blend8 a 0 a"
    by (simp add: alpha_blend_transparent a_def)
  have f: "files (w\<lparr>files := (files w)(output_path \<mapsto> out),
                stdout := stdout w @ [created_message output_path tsize]\<rparr>) output_path = Some out"
    by simp
  have "blend8 a 0 a = blend8 a 0 a
        \<and> unat (blend8 a 0 a) = (unat a * unat a + 127) div 255
        \<and> (a = 255 \<longrightarrow> blend8 a 0 a = 255) \<and> (a = 0 \<longrightarrow> blend8 a 0 a = 0)
        \<and> (0 < a \<and> a < 255 \<longrightarrow> blend8 a 0 a < a)"
    using blend8_self [of a] blend8_self_opaque blend8_self_clear blend8_self_less [of a]
    by auto
  then show ?thesis using v(1,2,4) f o unfolding a_def by metis
qed

text \<open>
  On the sample picture without rounding: 255 stays 255, 0 stays 0, 128 becomes 64.
\<close>

theorem self_mask_squares_alpha_witness:
  "\<exists>w' out. create_icon_with_padding demo_lib sample_world ''doc/icon.png'' ''out.png'' 3
               (PyInt 0) (PyInt 0) = Inr w'
           \<and> files w' ''out.png'' = Some out
           \<and> alpha (px sample_icon 1 0) = 255 \<and> alpha (px out 1 0) = 255
           \<and> alpha (px sample_icon 1 2) = 0 \<and> alpha (px out 1 2) = 0
           \<and> alpha (px sample_icon 1 1) = 128 \<and> alpha (px out 1 1) = 64"
proof -
  have pos: "paste_pos 3 3 = 0" by (simp add: paste_pos_def)
  have off: "\<And>rs. apply_corners demo_lib rs 3 (PyInt 0) = Inr rs"
    by (simp add: apply_corners_off)
  have t: "\<And>x y. 0 \<le> x \<Longrightarrow> x < 3 \<Longrightarrow> 0 \<le> y \<Longrightarrow> y < 3 \<Longrightarrow>
      \<exists>w' out. create_icon_with_padding demo_lib sample_world ''doc/icon.png'' ''out.png'' 3
               (PyInt 0) (PyInt 0) = Inr w'
           \<and> files w' ''out.png'' = Some out
           \<and> alpha (px out x y)
               = blend8 (alpha (px (convert_RGBA sample_icon) x y)) 0
                   (alpha (px (convert_RGBA sample_icon) x y))"
    using self_mask_squares_alpha [of 3 "PyInt 0" "PyInt 0" 3 sample_world "''doc/icon.png''"
        sample_icon "''out.png''" _ _ demo_lib,
        OF _ _ _ _ _ sample_inner _ sample_file sample_writable _ _ _ _ sample_size]
    by (simp add: pos off sample_resize) blast
  obtain w' out where w: "create_icon_with_padding demo_lib sample_world ''doc/icon.png''
      ''out.png'' 3 (PyInt 0) (PyInt 0) = Inr w'" "files w' ''out.png'' = Some out"
    using t [of 0 0] by auto
  have a: "\<And>x y. 0 \<le> x \<Longrightarrow> x < 3 \<Longrightarrow> 0 \<le> y \<Longrightarrow> y < 3 \<Longrightarrow>
      alpha (px out x y)
               = blend8 (alpha (px (convert_RGBA sample_icon) x y)) 0
                   (alpha (px (convert_RGBA sample_icon) x y))"
    using t w by fastforce
  have "alpha (px out 1 0) = 255" "alpha (px out 1 2) = 0" "alpha (px out 1 1) = 64"
    using a [of 1 0] a [of 1 2] a [of 1 1] by (simp_all add: sample_alpha blend8_def div255_def)
  then show ?thesis using w by (simp add: sample_icon_def)
qed

end
